theory Spec2Isabelle
  imports Main "HOL-Library.Word"
begin

section \<open>The hvt tender's main program (tenders/hvt/hvt_main.c)\<close>

text \<open>
  A shallow embedding of \<^verbatim>\<open>hvt_main.c\<close>. The program is sequential; what it does
  beyond computing values is calling out (to the modules, the ELF loader, the manifest
  codec, the virtualisation backend, the operating system), writing diagnostics and
  terminating the process. The model makes each of these explicit:
  \<^item> every function returns a \<open>result\<close>: it either stops the process (\<open>Stop\<close>, with how it
    stopped) or continues with a value (\<open>Cont\<close>); both carry the list of events the function
    produced, in program order;
  \<^item> code of the repository that is not in this file (and the C library) is a parameter,
    collected in the record \<open>env\<close>; what such code may change beyond the manifest is
    the state \<open>'w\<close>, passed explicitly; a call to it either returns or ends the process.
\<close>

subsection \<open>Data\<close>

type_synonym size_t = "64 word"
  \<comment> \<open>\<^verbatim>\<open>size_t\<close> on the 64-bit targets hvt supports\<close>
type_synonym hvt_gpa_t = "64 word"

text \<open>
  \<^verbatim>\<open>struct mft_entry\<close>, the fields this file reads: \<^verbatim>\<open>name\<close>, \<^verbatim>\<open>type\<close>,
  \<^verbatim>\<open>attached\<close> (the declaration is in a header, outside \<^verbatim>\<open>hvt_main.c\<close>).
  A manifest \<^verbatim>\<open>struct mft\<close> is the list of its entries \<^verbatim>\<open>e[0] .. e[entries - 1]\<close>, so
  \<^verbatim>\<open>mft->entries\<close> is the length of the list.
\<close>

record mft_entry =
  name :: string
  type :: nat
  attached :: bool

type_synonym mft = "mft_entry list"

text \<open>How a process ends other than by returning from \<^verbatim>\<open>main\<close>.\<close>

datatype outcome =
    Exit int         \<comment> \<open>\<^verbatim>\<open>exit(n)\<close>, \<^verbatim>\<open>err(n, ...)\<close>, \<^verbatim>\<open>errx(n, ...)\<close>\<close>
  | Abort            \<comment> \<open>a failed \<^verbatim>\<open>assert\<close>\<close>
  | Undefined        \<comment> \<open>behaviour the C standard leaves undefined\<close>

text \<open>
  Events: the diagnostics written to standard error and the calls that leave this file.
  A module is identified by its position in the registry; a command-line token handed to
  a module is \<open>None\<close> for the \<^verbatim>\<open>NULL\<close> that terminates \<^verbatim>\<open>argv\<close>.
\<close>

datatype event =
    Warn_setup_failed string          \<comment> \<open>"Module `%s' setup failed"\<close>
  | Warn_check_usage string           \<comment> \<open>"Please check you have correctly specified: %s"\<close>
  | Warn_not_attached string string   \<comment> \<open>"Device '%s' of type %s declared but not attached."\<close>
  | Err_must_attach                   \<comment> \<open>"All declared devices must be attached. ..."\<close>
  | Err_malformed_mem                 \<comment> \<open>"Malformed argument to --mem"\<close>
  | Print_usage string "string list" "string list"
      \<comment> \<open>the usage text: program name, module names, the modules' usage lines
          (an empty list is printed as "(none)")\<close>
  | Print_version string string       \<comment> \<open>program name and \<^verbatim>\<open>SOLO5_VERSION\<close>\<close>
  | Warn_missing_kernel               \<comment> \<open>"Missing KERNEL operand"\<close>
  | Err_could_not_open string         \<comment> \<open>"%s: Could not open"\<close>
  | Err_no_manifest string            \<comment> \<open>"%s: No Solo5 manifest found in executable"\<close>
  | Err_manifest_invalid string       \<comment> \<open>"%s: Solo5 manifest is invalid"\<close>
  | Warn_invalid_option string        \<comment> \<open>"Invalid option: `%s'"\<close>
  | Err_signal_handler                \<comment> \<open>"Could not install signal handler"\<close>
  | Warn_not_dropping                 \<comment> \<open>the two warnings of a build with \<^verbatim>\<open>HVT_DROP_PRIVILEGES=0\<close>\<close>
  | Call_setup nat
  | Call_handle_cmdarg nat "string option"
  | Call_open string
  | Call_elf_load_note int
  | Call_mft_validate
  | Call_free
  | Call_sigaction int
  | Call_hvt_mem_size size_t
  | Call_hvt_init size_t
  | Call_elf_load int
  | Call_close int
  | Call_hvt_vcpu_init hvt_gpa_t
  | Call_hvt_boot_info_init hvt_gpa_t "string list"
  | Call_hvt_drop_privileges
  | Call_hvt_vcpu_loop

datatype 'a result =
    Stop outcome "event list"
  | Cont 'a "event list"

text \<open>What a call to code outside this file does: it ends the process, or it returns.\<close>

datatype ('a, 'w) ext =
    Dies int
  | Returns 'a 'w

text \<open>
  \<^verbatim>\<open>struct hvt_module\<close> with its \<^verbatim>\<open>ops\<close>. The declaration is in a header, outside
  \<^verbatim>\<open>hvt_main.c\<close>; the record has the fields this file reads, with the types their
  uses give them. \<^verbatim>\<open>setup\<close>, \<^verbatim>\<open>handle_cmdarg\<close> and \<^verbatim>\<open>usage\<close> are
  function pointers and may be \<^verbatim>\<open>NULL\<close> (\<open>None\<close>). The two operations take the manifest
  by reference and may change it; they return an \<^verbatim>\<open>int\<close>. \<^verbatim>\<open>usage\<close> takes no argument
  and returns a string, which is what the field holds. The module's name is a string of
  the static registry, so \<^verbatim>\<open>assert(m->name)\<close> in \<^verbatim>\<open>usage\<close> holds by its type.
\<close>

record 'w hvt_module =
  mod_name :: string
  ops_setup :: "(mft \<Rightarrow> 'w \<Rightarrow> (int \<times> mft, 'w) ext) option"
  ops_handle_cmdarg :: "(string option \<Rightarrow> mft \<Rightarrow> 'w \<Rightarrow> (int \<times> mft, 'w) ext) option"
  ops_usage :: "string option"

text \<open>
  Everything \<^verbatim>\<open>hvt_main.c\<close> uses and does not define: the module registry
  (\<^verbatim>\<open>__start_modules\<close> up to \<^verbatim>\<open>__stop_modules\<close>), constants and macros of the
  headers, and the functions it calls.
\<close>

record 'w env =
  modules :: "'w hvt_module list"
  MFT_RESERVED_FIRST :: nat
  mft_type_to_string :: "nat \<Rightarrow> string"
  SOLO5_VERSION :: string
  HVT_DROP_PRIVILEGES :: bool
  open_rdonly :: "string \<Rightarrow> 'w \<Rightarrow> int \<times> 'w"
  elf_load_note :: "int \<Rightarrow> string \<Rightarrow> 'w \<Rightarrow> ((mft \<times> size_t) option, 'w) ext"
  mft_validate :: "mft \<Rightarrow> size_t \<Rightarrow> int \<times> mft"
  sigaction :: "int \<Rightarrow> 'w \<Rightarrow> int \<times> 'w"
  hvt_mem_size :: "size_t \<Rightarrow> 'w \<Rightarrow> (size_t, 'w) ext"
  hvt_init :: "size_t \<Rightarrow> 'w \<Rightarrow> (unit, 'w) ext"
  elf_load :: "int \<Rightarrow> string \<Rightarrow> 'w \<Rightarrow> (hvt_gpa_t \<times> hvt_gpa_t, 'w) ext"
  close_fd :: "int \<Rightarrow> 'w \<Rightarrow> 'w"
  hvt_vcpu_init :: "hvt_gpa_t \<Rightarrow> 'w \<Rightarrow> (unit, 'w) ext"
  hvt_boot_info_init :: "hvt_gpa_t \<Rightarrow> string list \<Rightarrow> mft \<Rightarrow> size_t \<Rightarrow> 'w \<Rightarrow> (unit, 'w) ext"
  hvt_drop_privileges :: "'w \<Rightarrow> (unit, 'w) ext"
  hvt_vcpu_loop :: "'w \<Rightarrow> (int, 'w) ext"

subsection \<open>Sequencing\<close>

fun events :: "'a result \<Rightarrow> event list" where
  "events (Stop oc ev) = ev"
| "events (Cont x ev) = ev"

fun after :: "event list \<Rightarrow> 'a result \<Rightarrow> 'a result" where
  "after ev0 (Stop oc ev) = Stop oc (ev0 @ ev)"
| "after ev0 (Cont x ev) = Cont x (ev0 @ ev)"

fun seq :: "'a result \<Rightarrow> ('a \<Rightarrow> 'b result) \<Rightarrow> 'b result" where
  "seq (Stop oc ev) f = Stop oc ev"
| "seq (Cont x ev) f = after ev (f x)"

fun call :: "event \<Rightarrow> ('a, 'w) ext \<Rightarrow> ('a \<times> 'w) result" where
  "call ev (Dies c) = Stop (Exit c) [ev]"
| "call ev (Returns x w) = Cont (x, w) [ev]"

subsection \<open>\<^verbatim>\<open>setup_modules\<close> (lines 45--72)\<close>

text \<open>
  The first loop: every module's \<^verbatim>\<open>setup\<close>, from \<^verbatim>\<open>__start_modules\<close> on. The list
  is the part of the registry still to visit and \<open>i\<close> the position of its head.
\<close>

fun setup_loop :: "'w hvt_module list \<Rightarrow> nat \<Rightarrow> mft \<Rightarrow> 'w \<Rightarrow> (mft \<times> 'w) result" where
  "setup_loop [] i mft w = Cont (mft, w) []"
| "setup_loop (m # ms) i mft w =
     (case ops_setup m of
        None \<Rightarrow> Stop Abort []
      | Some f \<Rightarrow>
          (case f mft w of
             Dies c \<Rightarrow> Stop (Exit c) [Call_setup i]
           | Returns (rc, mft') w' \<Rightarrow>
               if rc \<noteq> 0 then
                 Stop (Exit 1)
                   ([Call_setup i, Warn_setup_failed (mod_name m)] @
                    (case ops_usage m of None \<Rightarrow> [] | Some u \<Rightarrow> [Warn_check_usage u]))
               else after [Call_setup i] (setup_loop ms (Suc i) mft' w')))"

text \<open>
  The second loop, over the manifest entries, with the flag \<^verbatim>\<open>fail\<close>: it returns the
  flag's final value and the warnings written.
\<close>

fun check_attached :: "'w env \<Rightarrow> mft \<Rightarrow> bool \<Rightarrow> bool \<times> event list" where
  "check_attached env [] fail = (fail, [])"
| "check_attached env (x # xs) fail =
     (if MFT_RESERVED_FIRST env \<le> type x then check_attached env xs fail
      else if \<not> attached x then
        (case check_attached env xs True of
           (fail', ev) \<Rightarrow>
             (fail', Warn_not_attached (name x) (mft_type_to_string env (type x)) # ev))
      else check_attached env xs fail)"

text \<open>Lines 59--71: the second loop and the exit that follows it.\<close>

definition audit_attached :: "'w env \<Rightarrow> mft \<Rightarrow> 'w \<Rightarrow> (mft \<times> 'w) result" where
  "audit_attached env mft w =
     (case check_attached env mft False of
        (fail, ev) \<Rightarrow>
          if fail then Stop (Exit 1) (ev @ [Err_must_attach])
          else Cont (mft, w) ev)"

definition setup_modules :: "'w env \<Rightarrow> mft \<Rightarrow> 'w \<Rightarrow> (mft \<times> 'w) result" where
  "setup_modules env mft w =
     seq (setup_loop (modules env) 0 mft w) (\<lambda>(mft', w'). audit_attached env mft' w')"

subsection \<open>\<^verbatim>\<open>handle_cmdarg\<close> (lines 74--84)\<close>

fun handle_cmdarg_loop ::
  "'w hvt_module list \<Rightarrow> nat \<Rightarrow> string option \<Rightarrow> mft \<Rightarrow> 'w \<Rightarrow> (int \<times> mft \<times> 'w) result"
where
  "handle_cmdarg_loop [] i cmdarg mft w = Cont (- 1, mft, w) []"
| "handle_cmdarg_loop (m # ms) i cmdarg mft w =
     (case ops_handle_cmdarg m of
        None \<Rightarrow> handle_cmdarg_loop ms (Suc i) cmdarg mft w
      | Some h \<Rightarrow>
          (case h cmdarg mft w of
             Dies c \<Rightarrow> Stop (Exit c) [Call_handle_cmdarg i cmdarg]
           | Returns (rc, mft') w' \<Rightarrow>
               if rc = 0 then Cont (0, mft', w') [Call_handle_cmdarg i cmdarg]
               else after [Call_handle_cmdarg i cmdarg]
                      (handle_cmdarg_loop ms (Suc i) cmdarg mft' w')))"

definition handle_cmdarg ::
  "'w env \<Rightarrow> string option \<Rightarrow> mft \<Rightarrow> 'w \<Rightarrow> (int \<times> mft \<times> 'w) result"
where
  "handle_cmdarg env cmdarg mft w = handle_cmdarg_loop (modules env) 0 cmdarg mft w"

subsection \<open>\<^verbatim>\<open>handle_mem\<close> (lines 91--100)\<close>

text \<open>
  \<^verbatim>\<open>sscanf(cmdarg, "--mem=%zd", &mem)\<close>: the ordinary characters of the format must
  match the input; \<^verbatim>\<open>%zd\<close> skips white space, reads an optional sign and the longest
  run of decimal digits, which must not be empty, and leaves the rest of the input
  unread. The result is \<open>Some v\<close> when the item was converted (the call returns 1) and
  \<open>None\<close> when it was not (the call returns 0 or \<^verbatim>\<open>EOF\<close>).
\<close>

definition isspace :: "char \<Rightarrow> bool" where
  "isspace c = (c \<in> set [CHR '' '', CHR 0x09, CHR 0x0A, CHR 0x0B, CHR 0x0C, CHR 0x0D])"

definition isdigit :: "char \<Rightarrow> bool" where
  "isdigit c = (c \<in> set ''0123456789'')"

fun decimal :: "int \<Rightarrow> string \<Rightarrow> int" where
  "decimal acc [] = acc"
| "decimal acc (c # cs) = decimal (10 * acc + (of_char c - 48)) cs"

definition scan_zd :: "string \<Rightarrow> int option" where
  "scan_zd s =
     (let t = dropWhile isspace s;
          neg = (t \<noteq> [] \<and> hd t = CHR ''-'');
          u = (if t \<noteq> [] \<and> (hd t = CHR ''-'' \<or> hd t = CHR ''+'') then tl t else t);
          ds = takeWhile isdigit u
      in if ds = [] then None
         else Some (if neg then - decimal 0 ds else decimal 0 ds))"

definition sscanf_mem :: "string \<Rightarrow> int option" where
  "sscanf_mem cmdarg =
     (if take 6 cmdarg = ''--mem='' then scan_zd (drop 6 cmdarg) else None)"

text \<open>
  \<^verbatim>\<open>mem\<close> is a \<^verbatim>\<open>size_t\<close>: the value read is stored in two's complement, the shift
  wraps around, and \<^verbatim>\<open>mem <= 0\<close> is an unsigned comparison. A value that \<^verbatim>\<open>%zd\<close>
  cannot represent is undefined behaviour. The result is the value written to
  \<^verbatim>\<open>*mem_size\<close>.
\<close>

definition handle_mem :: "string \<Rightarrow> size_t result" where
  "handle_mem cmdarg =
     (case sscanf_mem cmdarg of
        None \<Rightarrow> Stop (Exit 1) [Err_malformed_mem]
      | Some v \<Rightarrow>
          if v < - (2 ^ 63) \<or> 2 ^ 63 \<le> v then Stop Undefined []
          else
            (let mem = push_bit 20 (word_of_int v :: size_t)
             in if mem \<le> 0 then Stop (Exit 1) [Err_malformed_mem]
                else Cont mem []))"

subsection \<open>\<^verbatim>\<open>usage\<close> and \<^verbatim>\<open>version\<close> (lines 102--135)\<close>

definition usage :: "'w env \<Rightarrow> string \<Rightarrow> 'a result" where
  "usage env prog =
     Stop (Exit 1)
       [Print_usage prog (map mod_name (modules env))
          (List.map_filter ops_usage (modules env))]"

definition version :: "'w env \<Rightarrow> string \<Rightarrow> 'a result" where
  "version env prog = Stop (Exit 0) [Print_version prog (SOLO5_VERSION env)]"

subsection \<open>\<^verbatim>\<open>main\<close> (lines 137--263)\<close>

text \<open>
  \<open>args\<close> is \<^verbatim>\<open>argv[1] .. argv[argc - 1]\<close>; the \<^verbatim>\<open>NULL\<close> that ends \<^verbatim>\<open>argv\<close> is the
  end of the list. A cursor into \<^verbatim>\<open>argv\<close> is the number of tokens before it together
  with the tokens from it on. \<^verbatim>\<open>*argv[0] == '-'\<close> reads the first character of the
  current token, which is the terminating zero for an empty token.
\<close>

definition is_option :: "string \<Rightarrow> bool" where
  "is_option a = (a \<noteq> [] \<and> hd a = CHR ''-'')"

text \<open>
  The first scan (lines 155--173) returns the position of \<^verbatim>\<open>argv1\<close> when the loop is
  left.
\<close>

fun pass1 :: "'w env \<Rightarrow> string \<Rightarrow> nat \<Rightarrow> string list \<Rightarrow> nat result" where
  "pass1 env prog i [] = Cont i []"
| "pass1 env prog i (a # as) =
     (if is_option a then
        if a = ''--'' then Cont (Suc i) []
        else if a = ''--help'' then usage env prog
        else if a = ''--version'' then version env prog
        else pass1 env prog (Suc i) as
      else Cont i [])"

text \<open>Lines 184--196: open the image, load the manifest note and validate it.\<close>

definition load_manifest ::
  "'w env \<Rightarrow> string \<Rightarrow> 'w \<Rightarrow> (int \<times> mft \<times> size_t \<times> 'w) result"
where
  "load_manifest env elf_filename w =
     (case open_rdonly env elf_filename w of
        (elf_fd, w1) \<Rightarrow>
          if elf_fd = - 1 then
            Stop (Exit 1) [Call_open elf_filename, Err_could_not_open elf_filename]
          else
            after [Call_open elf_filename]
              (seq (call (Call_elf_load_note elf_fd) (elf_load_note env elf_fd elf_filename w1))
                 (\<lambda>(note, w2).
                    case note of
                      None \<Rightarrow> Stop (Exit 1) [Err_no_manifest elf_filename]
                    | Some (mft0, mft_size) \<Rightarrow>
                        (case mft_validate env mft0 mft_size of
                           (rc, mft) \<Rightarrow>
                             if rc = - 1 then
                               Stop (Exit 1)
                                 [Call_mft_validate, Call_free, Err_manifest_invalid elf_filename]
                             else Cont (elf_fd, mft, mft_size, w2) [Call_mft_validate]))))"

text \<open>
  The second scan (lines 202--227). One iteration may move \<^verbatim>\<open>argv\<close> twice: once in the
  \<^verbatim>\<open>--mem=\<close> branch and once more when a module claims what \<^verbatim>\<open>*argv\<close> then is, the
  following token or the final \<^verbatim>\<open>NULL\<close>. Moving past the \<^verbatim>\<open>NULL\<close> leaves the
  array, and the loop test that follows reads outside it. The result is the cursor,
  \<^verbatim>\<open>mem_size\<close>, the manifest and the state when the loop is left.
\<close>

fun pass2 ::
  "'w env \<Rightarrow> string \<Rightarrow> nat \<Rightarrow> string list \<Rightarrow> size_t \<Rightarrow> mft \<Rightarrow> 'w \<Rightarrow>
     (nat \<times> string list \<times> size_t \<times> mft \<times> 'w) result"
where
  "pass2 env prog i [] mem_size mft w = Cont (i, [], mem_size, mft, w) []"
| "pass2 env prog i (a # as) mem_size mft w =
     (if \<not> is_option a then Cont (i, a # as, mem_size, mft, w) []
      else if a = ''--'' then Cont (Suc i, as, mem_size, mft, w) []
      else if take 6 a = ''--mem='' then
        (case handle_mem a of
           Stop oc ev \<Rightarrow> Stop oc ev
         | Cont mem ev \<Rightarrow>
             after ev
               (case handle_cmdarg env (case as of [] \<Rightarrow> None | b # bs \<Rightarrow> Some b) mft w of
                  Stop oc ev' \<Rightarrow> Stop oc ev'
                | Cont (rc, mft', w') ev' \<Rightarrow>
                    if rc = 0 then
                      (case as of
                         [] \<Rightarrow> Stop Undefined ev'
                       | b # bs \<Rightarrow> after ev' (pass2 env prog (i + 2) bs mem mft' w'))
                    else after ev' (pass2 env prog (Suc i) as mem mft' w')))
      else
        (case handle_cmdarg env (Some a) mft w of
           Stop oc ev \<Rightarrow> Stop oc ev
         | Cont (rc, mft', w') ev \<Rightarrow>
             if rc = 0 then after ev (pass2 env prog (Suc i) as mem_size mft' w')
             else after (ev @ [Warn_invalid_option a]) (usage env prog)))"

text \<open>Lines 232--239.\<close>

definition SIGINT :: int where "SIGINT = 2"
definition SIGTERM :: int where "SIGTERM = 15"

definition install_signal_handlers :: "'w env \<Rightarrow> 'w \<Rightarrow> 'w result" where
  "install_signal_handlers env w =
     (case sigaction env SIGINT w of
        (rc1, w1) \<Rightarrow>
          if rc1 = - 1 then Stop (Exit 1) [Call_sigaction SIGINT, Err_signal_handler]
          else
            (case sigaction env SIGTERM w1 of
               (rc2, w2) \<Rightarrow>
                 if rc2 = - 1 then
                   Stop (Exit 1) [Call_sigaction SIGINT, Call_sigaction SIGTERM, Err_signal_handler]
                 else Cont w2 [Call_sigaction SIGINT, Call_sigaction SIGTERM]))"

text \<open>
  Lines 241--248: the memory size, the guest memory, the image and the virtual CPU. The
  result is \<^verbatim>\<open>gpa_kend\<close>.
\<close>

definition load_guest ::
  "'w env \<Rightarrow> int \<Rightarrow> string \<Rightarrow> size_t \<Rightarrow> 'w \<Rightarrow> (hvt_gpa_t \<times> 'w) result"
where
  "load_guest env elf_fd elf_filename mem_size w =
     seq (call (Call_hvt_mem_size mem_size) (hvt_mem_size env mem_size w)) (\<lambda>(mem_size', w1).
     seq (call (Call_hvt_init mem_size') (hvt_init env mem_size' w1)) (\<lambda>(u, w2).
     seq (call (Call_elf_load elf_fd) (elf_load env elf_fd elf_filename w2))
       (\<lambda>((gpa_ep, gpa_kend), w3).
     seq (Cont (close_fd env elf_fd w3) [Call_close elf_fd]) (\<lambda>w4.
     seq (call (Call_hvt_vcpu_init gpa_ep) (hvt_vcpu_init env gpa_ep w4)) (\<lambda>(u, w5).
     Cont (gpa_kend, w5) [])))))"

text \<open>
  \<^verbatim>\<open>main\<close>, in two parts: \<open>run_guest\<close> is lines 250--262, from the modules' setup to
  the execution loop, and \<open>main\<close> the function with \<open>run_guest\<close> as its last step.
  \<open>prog\<close> is \<^verbatim>\<open>basename(argv[0])\<close>. \<^verbatim>\<open>assert(elf_filename == *argv)\<close> compares two
  pointers into the strings of \<^verbatim>\<open>argv\<close>: they are equal exactly when both scans
  stopped at the same position. After it \<^verbatim>\<open>argv\<close> is moved once more (line 230), so
  \<^verbatim>\<open>hvt_boot_info_init\<close> receives the tokens after the one both scans stopped at.
  \<open>Cont rc\<close> is \<^verbatim>\<open>main\<close> returning \<open>rc\<close>. Signals that arrive after the handlers are
  installed are not part of the model.
\<close>

definition run_guest ::
  "'w env \<Rightarrow> hvt_gpa_t \<Rightarrow> string list \<Rightarrow> mft \<Rightarrow> size_t \<Rightarrow> 'w \<Rightarrow> int result"
where
  "run_guest env gpa_kend argv mft mft_size w =
     seq (setup_modules env mft w) (\<lambda>(mft', w1).
     seq (call (Call_hvt_boot_info_init gpa_kend argv)
            (hvt_boot_info_init env gpa_kend argv mft' mft_size w1)) (\<lambda>(u, w2).
     seq (if HVT_DROP_PRIVILEGES env
          then call Call_hvt_drop_privileges (hvt_drop_privileges env w2)
          else Cont ((), w2) [Warn_not_dropping]) (\<lambda>(u, w3).
     seq (call Call_hvt_vcpu_loop (hvt_vcpu_loop env w3)) (\<lambda>(rc, w4).
     Cont rc []))))"

definition main :: "'w env \<Rightarrow> string \<Rightarrow> string list \<Rightarrow> 'w \<Rightarrow> int result" where
  "main env prog args w =
     seq (pass1 env prog 0 args) (\<lambda>k.
     if length args \<le> k then after [Warn_missing_kernel] (usage env prog)
     else
     seq (load_manifest env (args ! k) w) (\<lambda>(elf_fd, mft, mft_size, w1).
     seq (pass2 env prog 0 args 0x20000000 mft w1) (\<lambda>(j, argv, mem_size, mft', w2).
     if j \<noteq> k then Stop Abort []
     else
     seq (install_signal_handlers env w2) (\<lambda>w3.
     seq (load_guest env elf_fd (args ! k) mem_size w3) (\<lambda>(gpa_kend, w4).
     run_guest env gpa_kend (tl argv) mft' mft_size w4)))))"

subsection \<open>Classes of events\<close>

text \<open>
  The events of the steps up to the end of the second scan, the events of the steps from
  there up to the initialisation of the virtual CPU, and the events of
  \<^verbatim>\<open>setup_modules\<close>.
\<close>

fun parse_event :: "event \<Rightarrow> bool" where
  "parse_event (Print_usage p ns us) = True"
| "parse_event (Print_version p v) = True"
| "parse_event Warn_missing_kernel = True"
| "parse_event (Err_could_not_open f) = True"
| "parse_event (Err_no_manifest f) = True"
| "parse_event (Err_manifest_invalid f) = True"
| "parse_event (Warn_invalid_option a) = True"
| "parse_event Err_malformed_mem = True"
| "parse_event (Call_open f) = True"
| "parse_event (Call_elf_load_note fd) = True"
| "parse_event Call_mft_validate = True"
| "parse_event Call_free = True"
| "parse_event (Call_handle_cmdarg i a) = True"
| "parse_event e = False"

fun guest_event :: "event \<Rightarrow> bool" where
  "guest_event (Call_sigaction n) = True"
| "guest_event Err_signal_handler = True"
| "guest_event (Call_hvt_mem_size m) = True"
| "guest_event (Call_hvt_init m) = True"
| "guest_event (Call_elf_load fd) = True"
| "guest_event (Call_close fd) = True"
| "guest_event (Call_hvt_vcpu_init ep) = True"
| "guest_event e = False"

fun setup_event :: "event \<Rightarrow> bool" where
  "setup_event (Call_setup i) = True"
| "setup_event (Warn_setup_failed n) = True"
| "setup_event (Warn_check_usage u) = True"
| "setup_event (Warn_not_attached n t) = True"
| "setup_event Err_must_attach = True"
| "setup_event e = False"

subsection \<open>A concrete configuration\<close>

text \<open>
  A small tender on which the definitions can be evaluated. The state outside the
  manifest is one flag: whether a network interface was named on the command line.
  The module \<open>net\<close> claims the tokens that start with \<^verbatim>\<open>--net=\<close>; its setup attaches
  the network devices of the manifest when an interface was named and succeeds
  either way. The module \<open>blk\<close> claims the tokens that start with \<^verbatim>\<open>--disk=\<close>; its
  setup fails. The image holds a manifest with one network device and one reserved entry.
\<close>

definition demo_core :: "bool hvt_module" where
  "demo_core =
     \<lparr>mod_name = ''core'',
      ops_setup = Some (\<lambda>mft w. Returns (0, mft) w),
      ops_handle_cmdarg = None,
      ops_usage = None\<rparr>"

definition demo_net :: "bool hvt_module" where
  "demo_net =
     \<lparr>mod_name = ''net'',
      ops_setup = Some (\<lambda>mft w.
        if w then Returns (0, map (\<lambda>x. if type x = 2 then x\<lparr>attached := True\<rparr> else x) mft) w
        else Returns (0, mft) w),
      ops_handle_cmdarg = Some (\<lambda>cmdarg mft w.
        case cmdarg of
          None \<Rightarrow> Returns (- 1, mft) w
        | Some a \<Rightarrow> if take 6 a = ''--net='' then Returns (0, mft) True else Returns (- 1, mft) w),
      ops_usage = Some ''--net=IFACE''\<rparr>"

definition demo_blk :: "bool hvt_module" where
  "demo_blk =
     \<lparr>mod_name = ''blk'',
      ops_setup = Some (\<lambda>mft w. Returns (- 1, mft) w),
      ops_handle_cmdarg = Some (\<lambda>cmdarg mft w.
        case cmdarg of
          None \<Rightarrow> Returns (- 1, mft) w
        | Some a \<Rightarrow> if take 7 a = ''--disk='' then Returns (0, mft) w else Returns (- 1, mft) w),
      ops_usage = Some ''--disk=IMAGE''\<rparr>"

definition demo_mft :: mft where
  "demo_mft =
     [\<lparr>name = ''net0'', type = 2, attached = False\<rparr>,
      \<lparr>name = ''note'', type = 2 ^ 30, attached = False\<rparr>]"

definition demo_env :: "bool env" where
  "demo_env =
     \<lparr>modules = [demo_core, demo_net],
      MFT_RESERVED_FIRST = 2 ^ 30,
      mft_type_to_string = (\<lambda>t. if t = 2 then ''NET_BASIC'' else ''UNKNOWN''),
      SOLO5_VERSION = ''v0.6.0'',
      HVT_DROP_PRIVILEGES = True,
      open_rdonly = (\<lambda>f w. (3, w)),
      elf_load_note = (\<lambda>fd f w. Returns (Some (demo_mft, 64)) w),
      mft_validate = (\<lambda>mft sz. (0, mft)),
      sigaction = (\<lambda>signo w. (0, w)),
      hvt_mem_size = (\<lambda>mem w. Returns mem w),
      hvt_init = (\<lambda>mem w. Returns () w),
      elf_load = (\<lambda>fd f w. Returns (0x100000, 0x200000) w),
      close_fd = (\<lambda>fd w. w),
      hvt_vcpu_init = (\<lambda>ep w. Returns () w),
      hvt_boot_info_init = (\<lambda>kend argv mft sz w. Returns () w),
      hvt_drop_privileges = (\<lambda>w. Returns () w),
      hvt_vcpu_loop = (\<lambda>w. Returns 0 w)\<rparr>"

text \<open>The same tender with the module \<open>blk\<close> between the two others.\<close>

definition demo_env_blk :: "bool env" where
  "demo_env_blk = demo_env\<lparr>modules := [demo_core, demo_blk, demo_net]\<rparr>"

text \<open>A tender in which two modules claim the tokens that start with \<^verbatim>\<open>--net=\<close>.\<close>

definition demo_env_twice :: "bool env" where
  "demo_env_twice = demo_env\<lparr>modules := [demo_core, demo_blk, demo_net, demo_net]\<rparr>"

section \<open>Properties\<close>

subsection \<open>Evaluating the concrete configuration\<close>

lemma demo_env_sel:
  "modules demo_env = [demo_core, demo_net]"
  "MFT_RESERVED_FIRST demo_env = 2 ^ 30"
  "mft_type_to_string demo_env = (\<lambda>t. if t = 2 then ''NET_BASIC'' else ''UNKNOWN'')"
  "SOLO5_VERSION demo_env = ''v0.6.0''"
  "HVT_DROP_PRIVILEGES demo_env = True"
  "open_rdonly demo_env = (\<lambda>f w. (3, w))"
  "elf_load_note demo_env = (\<lambda>fd f w. Returns (Some (demo_mft, 64)) w)"
  "mft_validate demo_env = (\<lambda>mft sz. (0, mft))"
  "sigaction demo_env = (\<lambda>signo w. (0, w))"
  "hvt_mem_size demo_env = (\<lambda>mem w. Returns mem w)"
  "hvt_init demo_env = (\<lambda>mem w. Returns () w)"
  "elf_load demo_env = (\<lambda>fd f w. Returns (0x100000, 0x200000) w)"
  "close_fd demo_env = (\<lambda>fd w. w)"
  "hvt_vcpu_init demo_env = (\<lambda>ep w. Returns () w)"
  "hvt_boot_info_init demo_env = (\<lambda>kend argv mft sz w. Returns () w)"
  "hvt_drop_privileges demo_env = (\<lambda>w. Returns () w)"
  "hvt_vcpu_loop demo_env = (\<lambda>w. Returns 0 w)"
  by (simp_all add: demo_env_def)

lemmas handle_mem_simps =
  handle_mem_def sscanf_mem_def scan_zd_def isspace_def isdigit_def

lemmas demo_simps =
  demo_env_sel demo_core_def demo_net_def demo_blk_def demo_mft_def
  main_def run_guest_def load_manifest_def load_guest_def install_signal_handlers_def
  setup_modules_def audit_attached_def handle_cmdarg_def is_option_def usage_def version_def
  SIGINT_def SIGTERM_def handle_mem_simps List.map_filter_def

subsection \<open>The \<^verbatim>\<open>--mem=\<close> option\<close>

lemma isdigit_not_space: "isdigit c \<Longrightarrow> \<not> isspace c"
  by (auto simp: isdigit_def isspace_def)

lemma isdigit_not_sign: "isdigit c \<Longrightarrow> c \<noteq> CHR ''-'' \<and> c \<noteq> CHR ''+''"
  by (auto simp: isdigit_def)

lemma scan_zd_digits:
  assumes "ds \<noteq> []" and "list_all isdigit ds" and "rest = [] \<or> \<not> isdigit (hd rest)"
  shows "scan_zd (ds @ rest) = Some (decimal 0 ds)"
proof -
  obtain d ds' where ds: "ds = d # ds'" using assms(1) by (cases ds) auto
  have d: "isdigit d" using assms(2) ds by simp
  have tw: "takeWhile isdigit (ds @ rest) = ds"
  proof -
    have "takeWhile isdigit rest = []" using assms(3) by (cases rest) auto
    moreover have "\<forall>x\<in>set ds. isdigit x" using assms(2) by (simp add: list_all_iff)
    ultimately show ?thesis by (simp add: takeWhile_append2)
  qed
  have dw: "dropWhile isspace (ds @ rest) = ds @ rest"
    using d ds isdigit_not_space by simp
  show ?thesis
    unfolding scan_zd_def dw using isdigit_not_sign [OF d] tw assms(1) ds
    by (simp add: Let_def)
qed

lemma sscanf_mem_digits:
  assumes "ds \<noteq> []" and "list_all isdigit ds" and "rest = [] \<or> \<not> isdigit (hd rest)"
  shows "sscanf_mem (''--mem='' @ ds @ rest) = Some (decimal 0 ds)"
  using scan_zd_digits [OF assms] by (simp add: sscanf_mem_def)

lemma push_bit_20_unat:
  assumes "0 < v" and "v < 2 ^ 44"
  shows "unat (push_bit 20 (word_of_int v :: 64 word)) = nat v * 2 ^ 20"
proof -
  have "nat v * 2 ^ 20 < 2 ^ 44 * 2 ^ 20" using assms by simp
  then have lt: "nat v * 2 ^ 20 < 2 ^ 64" by simp
  have "push_bit 20 (word_of_int v :: 64 word) = word_of_nat (nat v * 2 ^ 20)"
    using assms by (simp add: push_bit_eq_mult)
  then show ?thesis using lt
    by (simp only: unat_of_nat len_bit0 len_num1 mod_less) simp
qed

text \<open>
  C2. \<^verbatim>\<open>--mem=512\<close> sets the memory size to 512 * 2^20 bytes, and \<^verbatim>\<open>--mem=0\<close> and
  \<^verbatim>\<open>--mem=abc\<close> end the process with exit code 1 before anything is written. The token
  \<^verbatim>\<open>--mem=-1\<close> does not: \<^verbatim>\<open>mem\<close> is unsigned, -1 is stored as 2^64 - 1, the shift
  gives 2^64 - 2^20, and \<^verbatim>\<open>mem <= 0\<close> is false. The second scan goes on with that
  memory size.
\<close>

theorem handle_mem_tokens:
  "handle_mem ''--mem=512'' = Cont (512 * 2 ^ 20) [] \<and>
   handle_mem ''--mem=0'' = Stop (Exit 1) [Err_malformed_mem] \<and>
   handle_mem ''--mem=abc'' = Stop (Exit 1) [Err_malformed_mem] \<and>
   handle_mem ''--mem=-1'' = Cont 0xFFFFFFFFFFF00000 [] \<and>
   pass2 demo_env ''solo5-hvt'' 0 [''--mem=-1'', ''test.hvt''] 0x20000000 demo_mft False =
     Cont (1, [''test.hvt''], 0xFFFFFFFFFFF00000, demo_mft, False)
       [Call_handle_cmdarg 1 (Some ''test.hvt'')]"
  by (simp add: demo_simps push_bit_eq_mult del: push_bit_minus_one_eq_not_mask)

text \<open>
  C10, as amended. A token \<^verbatim>\<open>--mem=\<close> followed by a non-empty run of decimal digits
  and then by anything that does not start with a digit is accepted, and the memory size
  is the digits' value times 2^20, provided that value is positive and below 2^44 (so
  that the product fits a \<^verbatim>\<open>size_t\<close>). What follows the digits is not read.
\<close>

theorem handle_mem_trailing:
  assumes "ds \<noteq> []" and "list_all isdigit ds" and "rest = [] \<or> \<not> isdigit (hd rest)"
    and "0 < decimal 0 ds" and "decimal 0 ds < 2 ^ 44"
  shows "\<exists>mem. handle_mem (''--mem='' @ ds @ rest) = Cont mem [] \<and>
           unat mem = nat (decimal 0 ds) * 2 ^ 20"
proof -
  let ?v = "decimal 0 ds"
  let ?mem = "push_bit 20 (word_of_int ?v :: 64 word)"
  have u: "unat ?mem = nat ?v * 2 ^ 20" using push_bit_20_unat assms(4,5) by blast
  have "nat ?v * 2 ^ 20 \<noteq> 0" using assms(4) by simp
  then have nz: "?mem \<noteq> 0" using u by (metis unat_0)
  have r: "\<not> (?v < - (2 ^ 63) \<or> 2 ^ 63 \<le> ?v)" using assms(4,5) by simp
  have "handle_mem (''--mem='' @ ds @ rest) = Cont ?mem []"
    unfolding handle_mem_def sscanf_mem_digits [OF assms(1,2,3)] using r nz
    by (simp add: Let_def)
  then show ?thesis using u by blast
qed

text \<open>The amended C10 at \<^verbatim>\<open>--mem=512M\<close>.\<close>

theorem handle_mem_trailing_witness:
  "list_all isdigit ''512'' \<and> \<not> isdigit (hd ''M'') \<and>
   0 < decimal 0 ''512'' \<and> decimal 0 ''512'' < 2 ^ 44 \<and>
   (\<exists>mem. handle_mem ''--mem=512M'' = Cont mem [] \<and> unat mem = 512 * 2 ^ 20)"
  using handle_mem_trailing [of "''512''" "''M''"]
  by (simp add: isdigit_def)

text \<open>
  C10 as stated fails where the digits are \<^verbatim>\<open>0\<close>: \<^verbatim>\<open>--mem=0M\<close> has the form the
  claim describes and is rejected with exit code 1.
\<close>

theorem handle_mem_zero_suffix:
  "list_all isdigit ''0'' \<and> \<not> isdigit (CHR ''M'') \<and>
   handle_mem (''--mem='' @ ''0'' @ ''M'') = Stop (Exit 1) [Err_malformed_mem]"
  by (simp add: handle_mem_simps)

subsection \<open>Sequencing: basic facts\<close>

lemma after_Nil [simp]: "after [] r = r"
  by (cases r) auto

lemma after_after [simp]: "after ev1 (after ev2 r) = after (ev1 @ ev2) r"
  by (cases r) auto

lemma events_after [simp]: "events (after ev r) = ev @ events r"
  by (cases r) auto

lemma after_eq_Cont: "after ev0 r = Cont x ev \<longleftrightarrow> (\<exists>ev1. r = Cont x ev1 \<and> ev = ev0 @ ev1)"
  by (cases r) auto

lemma seq_eq_Cont:
  "seq r f = Cont y ev \<longleftrightarrow> (\<exists>x ev1 ev2. r = Cont x ev1 \<and> f x = Cont y ev2 \<and> ev = ev1 @ ev2)"
  by (cases r) (auto simp: after_eq_Cont)

lemma call_eq_Cont: "call e c = Cont xw ev \<longleftrightarrow> (\<exists>x w. c = Returns x w \<and> xw = (x, w) \<and> ev = [e])"
  by (cases c) auto

subsection \<open>\<^verbatim>\<open>setup_modules\<close>\<close>

lemma check_attached_eq:
  "check_attached env xs fail =
     (fail \<or> filter (\<lambda>x. type x < MFT_RESERVED_FIRST env \<and> \<not> attached x) xs \<noteq> [],
      map (\<lambda>x. Warn_not_attached (name x) (mft_type_to_string env (type x)))
        (filter (\<lambda>x. type x < MFT_RESERVED_FIRST env \<and> \<not> attached x) xs))"
  by (induction xs arbitrary: fail) (auto simp: not_le)

lemma setup_loop_append:
  "setup_loop pre i mft w = Cont (mft1, w1) ev \<Longrightarrow>
   setup_loop (pre @ post) i mft w = after ev (setup_loop post (i + length pre) mft1 w1)"
proof (induction pre arbitrary: i mft w ev)
  case Nil
  then show ?case by simp
next
  case (Cons m pre)
  from Cons.prems obtain f where f: "ops_setup m = Some f"
    by (cases "ops_setup m") auto
  from Cons.prems f obtain mft' w' where r: "f mft w = Returns (0, mft') w'"
    by (cases "f mft w") (auto split: if_splits)
  from Cons.prems f r obtain ev' where
    ev': "setup_loop pre (Suc i) mft' w' = Cont (mft1, w1) ev'" "ev = Call_setup i # ev'"
    by (auto simp: after_eq_Cont)
  show ?case using Cons.IH [OF ev'(1), of ] f r ev'(2) by simp
qed

lemma setup_loop_events:
  "setup_loop ms i mft w = Cont x ev \<Longrightarrow> ev = map Call_setup [i..<i + length ms]"
proof (induction ms arbitrary: i mft w ev)
  case Nil
  then show ?case by simp
next
  case (Cons m ms)
  from Cons.prems obtain f where f: "ops_setup m = Some f"
    by (cases "ops_setup m") auto
  from Cons.prems f obtain mft' w' where r: "f mft w = Returns (0, mft') w'"
    by (cases "f mft w") (auto split: if_splits)
  from Cons.prems f r obtain ev' where
    ev': "setup_loop ms (Suc i) mft' w' = Cont x ev'" "ev = Call_setup i # ev'"
    by (auto simp: after_eq_Cont)
  have "ev' = map Call_setup [Suc i..<Suc i + length ms]" using Cons.IH [OF ev'(1)] .
  then show ?case using ev'(2) by (simp add: upt_rec)
qed

text \<open>
  C5. Once every module's setup has succeeded, the audit writes one warning for each
  manifest entry whose type is below \<^verbatim>\<open>MFT_RESERVED_FIRST\<close> and whose \<^verbatim>\<open>attached\<close>
  flag is false, for all of them and in the order of the manifest, and for no other
  entry; the process then exits with code 1 exactly when there is such an entry, and
  goes on otherwise.
\<close>

theorem attachment_audit:
  assumes "setup_loop (modules env) 0 mft w = Cont (mft', w') ev"
  shows "setup_modules env mft w =
          (let missing = filter (\<lambda>x. type x < MFT_RESERVED_FIRST env \<and> \<not> attached x) mft';
               warnings = map (\<lambda>x. Warn_not_attached (name x) (mft_type_to_string env (type x))) missing
           in if missing = [] then Cont (mft', w') (ev @ warnings)
              else Stop (Exit 1) (ev @ warnings @ [Err_must_attach]))"
  using assms by (simp add: setup_modules_def audit_attached_def check_attached_eq Let_def)

text \<open>
  C8. Let \<open>pre\<close> be modules at the start of the registry whose setups all succeed, and
  \<open>post\<close> the rest of the registry. The setups of \<open>pre\<close> are called in registry order.
  If \<open>post\<close> is empty, the audit runs after them. If the setup of the first module of
  \<open>post\<close> fails, the process exits with code 1 after that call, the warning with the
  module's name and, if the module has one, its usage text: no later setup is called and
  the audit does not run.
\<close>

theorem setup_modules_order:
  assumes "modules env = pre @ post"
    and "setup_loop pre 0 mft w = Cont (mft1, w1) ev"
    and "post = [] \<or>
         (\<exists>f rc mft2 w2. ops_setup (hd post) = Some f \<and> f mft1 w1 = Returns (rc, mft2) w2 \<and> rc \<noteq> 0)"
  shows "ev = map Call_setup [0..<length pre] \<and>
         setup_modules env mft w =
           (case post of
              [] \<Rightarrow> after ev (audit_attached env mft1 w1)
            | m # ms \<Rightarrow>
                Stop (Exit 1)
                  (ev @ [Call_setup (length pre), Warn_setup_failed (mod_name m)] @
                   (case ops_usage m of None \<Rightarrow> [] | Some u \<Rightarrow> [Warn_check_usage u])))"
proof
  show "ev = map Call_setup [0..<length pre]"
    using setup_loop_events [OF assms(2)] by simp
next
  have split: "setup_loop (modules env) 0 mft w = after ev (setup_loop post (length pre) mft1 w1)"
    using setup_loop_append [OF assms(2), of post] assms(1) by simp
  show "setup_modules env mft w =
           (case post of
              [] \<Rightarrow> after ev (audit_attached env mft1 w1)
            | m # ms \<Rightarrow>
                Stop (Exit 1)
                  (ev @ [Call_setup (length pre), Warn_setup_failed (mod_name m)] @
                   (case ops_usage m of None \<Rightarrow> [] | Some u \<Rightarrow> [Warn_check_usage u])))"
  proof (cases post)
    case Nil
    then show ?thesis by (simp add: setup_modules_def split)
  next
    case (Cons m ms)
    with assms(3) obtain f rc mft2 w2 where
      "ops_setup m = Some f" "f mft1 w1 = Returns (rc, mft2) w2" "rc \<noteq> 0"
      by auto
    then show ?thesis using Cons by (simp add: setup_modules_def split)
  qed
qed


text \<open>
  C5 on the concrete tender: without an interface the device \<open>net0\<close> stays unattached and
  is reported, the reserved entry is not; with an interface nothing is reported.
\<close>

theorem attachment_audit_witness:
  "setup_loop (modules demo_env) 0 demo_mft False =
     Cont (demo_mft, False) [Call_setup 0, Call_setup 1] \<and>
   setup_modules demo_env demo_mft False =
     Stop (Exit 1)
       [Call_setup 0, Call_setup 1, Warn_not_attached ''net0'' ''NET_BASIC'', Err_must_attach] \<and>
   setup_modules demo_env demo_mft True =
     Cont ([\<lparr>name = ''net0'', type = 2, attached = True\<rparr>,
            \<lparr>name = ''note'', type = 2 ^ 30, attached = False\<rparr>], True)
       [Call_setup 0, Call_setup 1]"
proof -
  have h1: "setup_loop (modules demo_env) 0 demo_mft False =
      Cont (demo_mft, False) [Call_setup 0, Call_setup 1]"
    by (simp add: demo_env_sel demo_core_def demo_net_def)
  have h2: "setup_loop (modules demo_env) 0 demo_mft True =
      Cont ([\<lparr>name = ''net0'', type = 2, attached = True\<rparr>,
             \<lparr>name = ''note'', type = 2 ^ 30, attached = False\<rparr>], True)
        [Call_setup 0, Call_setup 1]"
    by (simp add: demo_env_sel demo_core_def demo_net_def demo_mft_def)
  show ?thesis
    using h1 attachment_audit [OF h1] attachment_audit [OF h2]
    by (simp add: demo_env_sel demo_mft_def)
qed

lemma demo_env_blk_modules: "modules demo_env_blk = [demo_core, demo_blk, demo_net]"
  by (simp add: demo_env_blk_def)

text \<open>C8 on the tender whose second module fails.\<close>

theorem setup_modules_order_witness:
  "setup_loop [demo_core] 0 demo_mft False = Cont (demo_mft, False) [Call_setup 0] \<and>
   setup_modules demo_env_blk demo_mft False =
     Stop (Exit 1)
       [Call_setup 0, Call_setup 1, Warn_setup_failed ''blk'', Warn_check_usage ''--disk=IMAGE'']"
proof -
  have reg: "modules demo_env_blk = [demo_core] @ [demo_blk, demo_net]"
    by (simp add: demo_env_blk_modules)
  have ok: "setup_loop [demo_core] 0 demo_mft False = Cont (demo_mft, False) [Call_setup 0]"
    by (simp add: demo_core_def)
  have bad: "[demo_blk, demo_net] = [] \<or>
      (\<exists>f rc mft2 w2. ops_setup (hd [demo_blk, demo_net]) = Some f \<and>
         f demo_mft False = Returns (rc, mft2) w2 \<and> rc \<noteq> 0)"
    by (rule disjI2, rule exI [of _ "\<lambda>mft w. Returns (- 1, mft) w"], rule exI [of _ "- 1"],
        rule exI [of _ demo_mft], rule exI [of _ False], simp add: demo_blk_def)
  have "setup_modules demo_env_blk demo_mft False =
      Stop (Exit 1)
        ([Call_setup 0] @ [Call_setup (length [demo_core]), Warn_setup_failed (mod_name demo_blk)] @
         (case ops_usage demo_blk of None \<Rightarrow> [] | Some u \<Rightarrow> [Warn_check_usage u]))"
    using setup_modules_order [OF reg ok bad] by (simp only: list.case)
  then show ?thesis
    using ok by (simp add: demo_blk_def)
qed


subsection \<open>\<^verbatim>\<open>handle_cmdarg\<close>\<close>

lemma handle_cmdarg_loop_events:
  "handle_cmdarg_loop ms i cmdarg mft w = r \<Longrightarrow>
   \<exists>ks. events r = map (\<lambda>k. Call_handle_cmdarg k cmdarg) ks \<and> sorted_wrt (<) ks \<and>
         set ks \<subseteq> {i..<i + length ms}"
proof (induction ms arbitrary: i mft w r)
  case Nil
  then show ?case by auto
next
  case (Cons m ms)
  show ?case
  proof (cases "ops_handle_cmdarg m")
    case None
    with Cons.prems have "handle_cmdarg_loop ms (Suc i) cmdarg mft w = r" by simp
    from Cons.IH [OF this] obtain ks where
      "events r = map (\<lambda>k. Call_handle_cmdarg k cmdarg) ks" "sorted_wrt (<) ks"
      "set ks \<subseteq> {Suc i..<Suc i + length ms}" by blast
    then show ?thesis by (intro exI [of _ ks]) auto
  next
    case (Some h)
    show ?thesis
    proof (cases "h cmdarg mft w")
      case (Dies c)
      with Some Cons.prems have "events r = map (\<lambda>k. Call_handle_cmdarg k cmdarg) [i]" by auto
      then show ?thesis by (intro exI [of _ "[i]"]) auto
    next
      case (Returns x w')
      obtain rc mft' where x: "x = (rc, mft')" by (cases x)
      show ?thesis
      proof (cases "rc = 0")
        case True
        with Some Returns x Cons.prems
        have "events r = map (\<lambda>k. Call_handle_cmdarg k cmdarg) [i]" by auto
        then show ?thesis by (intro exI [of _ "[i]"]) auto
      next
        case False
        with Some Returns x Cons.prems
        have r: "r = after [Call_handle_cmdarg i cmdarg]
                  (handle_cmdarg_loop ms (Suc i) cmdarg mft' w')" by auto
        from Cons.IH [OF refl, of "Suc i" mft' w'] obtain ks where ks:
          "events (handle_cmdarg_loop ms (Suc i) cmdarg mft' w') =
             map (\<lambda>k. Call_handle_cmdarg k cmdarg) ks"
          "sorted_wrt (<) ks" "set ks \<subseteq> {Suc i..<Suc i + length ms}" by blast
        show ?thesis using r ks by (intro exI [of _ "i # ks"]) auto
      qed
    qed
  qed
qed

lemma handle_cmdarg_loop_split:
  "handle_cmdarg_loop (pre @ post) i cmdarg mft w =
     (case handle_cmdarg_loop pre i cmdarg mft w of
        Stop oc ev \<Rightarrow> Stop oc ev
      | Cont x ev \<Rightarrow>
          if fst x = 0 then Cont x ev
          else after ev (handle_cmdarg_loop post (i + length pre) cmdarg (fst (snd x)) (snd (snd x))))"
proof (induction pre arbitrary: i mft w)
  case Nil
  then show ?case by simp
next
  case (Cons m pre)
  show ?case
  proof (cases "ops_handle_cmdarg m")
    case None
    then show ?thesis using Cons.IH [of "Suc i" mft w] by (auto split: result.splits)
  next
    case (Some h)
    show ?thesis
    proof (cases "h cmdarg mft w")
      case (Dies c)
      with Some show ?thesis by simp
    next
      case (Returns x w')
      obtain rc mft' where x: "x = (rc, mft')" by (cases x)
      show ?thesis
      proof (cases "rc = 0")
        case True
        with Some Returns x show ?thesis by simp
      next
        case False
        with Some Returns x show ?thesis
          using Cons.IH [of "Suc i" mft' w']
          by (cases "handle_cmdarg_loop pre (Suc i) cmdarg mft' w'") auto
      qed
    qed
  qed
qed

text \<open>
  C4. Let \<open>m\<close> be a module of the registry whose \<^verbatim>\<open>handle_cmdarg\<close> claims the token
  whenever it is offered it. Then no handler of a module after \<open>m\<close> is called for the
  token, whether that module would claim it or not; and when the modules before \<open>m\<close>
  have all declined the token (or have no handler), \<open>m\<close> claims it:
  \<^verbatim>\<open>handle_cmdarg\<close> returns 0 with the effects of \<open>m\<close>, after the calls of the handlers
  before \<open>m\<close> and that of \<open>m\<close>.
\<close>

theorem first_claim_wins:
  assumes "modules env = pre @ m # post"
    and "ops_handle_cmdarg m = Some h"
    and "\<forall>mft w. \<exists>mft' w'. h cmdarg mft w = Returns (0, mft') w'"
  shows "(\<forall>j a. length pre < j \<longrightarrow>
            Call_handle_cmdarg j a \<notin> set (events (handle_cmdarg env cmdarg mft w))) \<and>
         (\<forall>rc mft1 w1 ev.
            handle_cmdarg_loop pre 0 cmdarg mft w = Cont (rc, mft1, w1) ev \<and> rc \<noteq> 0 \<longrightarrow>
            (\<exists>mft2 w2. h cmdarg mft1 w1 = Returns (0, mft2) w2 \<and>
               handle_cmdarg env cmdarg mft w =
                 Cont (0, mft2, w2) (ev @ [Call_handle_cmdarg (length pre) cmdarg])))"
proof -
  have m_claims: "\<exists>mft2 w2. h cmdarg mft1 w1 = Returns (0, mft2) w2 \<and>
      handle_cmdarg_loop (m # post) (length pre) cmdarg mft1 w1 =
        Cont (0, mft2, w2) [Call_handle_cmdarg (length pre) cmdarg]" for mft1 w1
  proof -
    from assms(3) obtain mft2 w2 where "h cmdarg mft1 w1 = Returns (0, mft2) w2" by blast
    then show ?thesis using assms(2) by simp
  qed
  obtain ks where ks:
    "events (handle_cmdarg_loop pre 0 cmdarg mft w) = map (\<lambda>k. Call_handle_cmdarg k cmdarg) ks"
    "set ks \<subseteq> {0..<0 + length pre}"
    using handle_cmdarg_loop_events [OF refl, of pre 0 cmdarg mft w] by blast
  have early: "Call_handle_cmdarg j a \<notin> set (events (handle_cmdarg_loop pre 0 cmdarg mft w))"
    if "length pre < j" for j a
    using that ks by auto
  have run: "handle_cmdarg env cmdarg mft w =
      (case handle_cmdarg_loop pre 0 cmdarg mft w of
         Stop oc ev \<Rightarrow> Stop oc ev
       | Cont x ev \<Rightarrow>
           if fst x = 0 then Cont x ev
           else after ev (handle_cmdarg_loop (m # post) (length pre) cmdarg
                  (fst (snd x)) (snd (snd x))))"
    using handle_cmdarg_loop_split [of pre "m # post" 0 cmdarg mft w] assms(1)
    by (auto simp: handle_cmdarg_def split: result.splits)
  have later: "Call_handle_cmdarg j a \<notin> set (events (handle_cmdarg env cmdarg mft w))"
    if j: "length pre < j" for j a
  proof (cases "handle_cmdarg_loop pre 0 cmdarg mft w")
    case (Stop oc ev)
    with run early [OF j, of a] show ?thesis by simp
  next
    case (Cont x ev)
    show ?thesis
    proof (cases "fst x = 0")
      case True
      with run Cont early [OF j, of a] show ?thesis by simp
    next
      case False
      from m_claims [of "fst (snd x)" "snd (snd x)"] obtain mft2 w2 where
        "handle_cmdarg_loop (m # post) (length pre) cmdarg (fst (snd x)) (snd (snd x)) =
           Cont (0, mft2, w2) [Call_handle_cmdarg (length pre) cmdarg]" by blast
      with run Cont False early [OF j, of a] j show ?thesis by simp
    qed
  qed
  have claimed: "\<exists>mft2 w2. h cmdarg mft1 w1 = Returns (0, mft2) w2 \<and>
      handle_cmdarg env cmdarg mft w =
        Cont (0, mft2, w2) (ev @ [Call_handle_cmdarg (length pre) cmdarg])"
    if "handle_cmdarg_loop pre 0 cmdarg mft w = Cont (rc, mft1, w1) ev" "rc \<noteq> 0"
    for rc mft1 w1 ev
  proof -
    from m_claims [of mft1 w1] obtain mft2 w2 where
      c: "h cmdarg mft1 w1 = Returns (0, mft2) w2"
        "handle_cmdarg_loop (m # post) (length pre) cmdarg mft1 w1 =
           Cont (0, mft2, w2) [Call_handle_cmdarg (length pre) cmdarg]" by blast
    have "handle_cmdarg env cmdarg mft w =
        Cont (0, mft2, w2) (ev @ [Call_handle_cmdarg (length pre) cmdarg])"
      unfolding run using that c(2) by simp
    with c(1) show ?thesis by blast
  qed
  show ?thesis using later claimed by blast
qed

lemma demo_env_twice_modules:
  "modules demo_env_twice = [demo_core, demo_blk, demo_net, demo_net]"
  by (simp add: demo_env_twice_def)

text \<open>
  C4 on a registry in which two modules claim \<^verbatim>\<open>--net=tap0\<close>: the first of them
  (position 2) claims it and the second (position 3) is not called.
\<close>

theorem first_claim_wins_witness:
  "modules demo_env_twice = [demo_core, demo_blk] @ demo_net # [demo_net] \<and>
   handle_cmdarg_loop [demo_core, demo_blk] 0 (Some ''--net=tap0'') demo_mft False =
     Cont (- 1, demo_mft, False) [Call_handle_cmdarg 1 (Some ''--net=tap0'')] \<and>
   handle_cmdarg demo_env_twice (Some ''--net=tap0'') demo_mft False =
     Cont (0, demo_mft, True)
       [Call_handle_cmdarg 1 (Some ''--net=tap0''), Call_handle_cmdarg 2 (Some ''--net=tap0'')] \<and>
   Call_handle_cmdarg 3 (Some ''--net=tap0'') \<notin>
     set (events (handle_cmdarg demo_env_twice (Some ''--net=tap0'') demo_mft False))"
proof -
  have reg: "modules demo_env_twice = [demo_core, demo_blk] @ demo_net # [demo_net]"
    by (simp add: demo_env_twice_modules)
  have hh: "ops_handle_cmdarg demo_net = Some (\<lambda>cmdarg mft w.
        case cmdarg of
          None \<Rightarrow> Returns (- 1, mft) w
        | Some a \<Rightarrow> if take 6 a = ''--net='' then Returns (0, mft) True else Returns (- 1, mft) w)"
    by (simp add: demo_net_def)
  have declined:
    "handle_cmdarg_loop [demo_core, demo_blk] 0 (Some ''--net=tap0'') demo_mft False =
       Cont (- 1, demo_mft, False) [Call_handle_cmdarg 1 (Some ''--net=tap0'')]"
    by (simp add: demo_core_def demo_blk_def)
  note fcw = first_claim_wins [where env = demo_env_twice and pre = "[demo_core, demo_blk]"
      and m = demo_net and post = "[demo_net]" and cmdarg = "Some ''--net=tap0''" and mft = demo_mft
      and w = False and h = "(\<lambda>cmdarg mft w.
        case cmdarg of
          None \<Rightarrow> Returns (- 1, mft) w
        | Some a \<Rightarrow> if take 6 a = ''--net='' then Returns (0, mft) True else Returns (- 1, mft) w)", OF reg hh]
  have a: "handle_cmdarg demo_env_twice (Some ''--net=tap0'') demo_mft False =
     Cont (0, demo_mft, True)
       [Call_handle_cmdarg 1 (Some ''--net=tap0''), Call_handle_cmdarg 2 (Some ''--net=tap0'')]"
    apply (insert fcw)
    apply (drule meta_mp)
     apply (simp, blast)
    apply (drule conjunct2)
    apply (drule spec [of _ "- 1"])
    apply (drule spec [of _ demo_mft])
    apply (drule spec [of _ False])
    apply (drule spec [of _ "[Call_handle_cmdarg 1 (Some ''--net=tap0'')]"])
    apply (drule mp)
     apply (simp add: demo_core_def demo_blk_def)
    apply (elim exE conjE)
    apply simp
    done
  have b: "Call_handle_cmdarg 3 (Some ''--net=tap0'') \<notin>
      set (events (handle_cmdarg demo_env_twice (Some ''--net=tap0'') demo_mft False))"
    apply (insert fcw)
    apply (drule meta_mp)
     apply (simp, blast)
    apply simp
    done
  show ?thesis using reg declined a b by (intro conjI)
qed

subsection \<open>The two scans\<close>

text \<open>
  C6. When the first token is \<^verbatim>\<open>--help\<close> the process prints the usage text and exits
  with code 1; when it is \<^verbatim>\<open>--version\<close> the process prints its name and version and
  exits with code 0. Nothing else happens in either run: in particular the image is not
  opened.
\<close>

theorem terminal_options:
  "main env prog (''--help'' # rest) w =
     Stop (Exit 1)
       [Print_usage prog (map mod_name (modules env)) (List.map_filter ops_usage (modules env))] \<and>
   main env prog (''--version'' # rest) w =
     Stop (Exit 0) [Print_version prog (SOLO5_VERSION env)]"
  by (simp add: main_def is_option_def usage_def version_def)

subsection \<open>The events of each step\<close>

lemma events_call [simp]: "events (call e c) = [e]"
  by (cases c) auto

lemma mem_events_seq:
  "e \<in> set (events (seq r f)) \<longleftrightarrow>
     e \<in> set (events r) \<or> (\<exists>x ev. r = Cont x ev \<and> e \<in> set (events (f x)))"
  by (cases r) auto

lemma pass1_Cont:
  "pass1 env prog i as = Cont k ev \<Longrightarrow> ev = [] \<and> i \<le> k \<and> k \<le> i + length as"
proof (induction as arbitrary: i)
  case Nil
  then show ?case by simp
next
  case (Cons a as)
  show ?case
  proof (cases "is_option a \<and> a \<noteq> ''--'' \<and> a \<noteq> ''--help'' \<and> a \<noteq> ''--version''")
    case True
    with Cons.prems have "pass1 env prog (Suc i) as = Cont k ev" by simp
    from Cons.IH [OF this] show ?thesis by simp
  next
    case False
    with Cons.prems show ?thesis
      by (auto simp: usage_def version_def split: if_splits)
  qed
qed

lemma pass1_events: "e \<in> set (events (pass1 env prog i as)) \<Longrightarrow> parse_event e"
  by (induction as arbitrary: i) (auto simp: usage_def version_def split: if_splits)

lemma usage_events: "e \<in> set (events (usage env prog)) \<Longrightarrow> parse_event e"
  by (auto simp: usage_def)

lemma load_manifest_events:
  assumes "e \<in> set (events (load_manifest env f w))"
  shows "parse_event e"
proof -
  obtain fd w1 where o: "open_rdonly env f w = (fd, w1)"
    by (cases "open_rdonly env f w")
  show ?thesis
  proof (cases "elf_load_note env fd f w1")
    case (Dies c)
    with assms o show ?thesis
      by (auto simp: load_manifest_def split: if_splits)
  next
    case (Returns nt w2)
    show ?thesis
    proof (cases nt)
      case None
      with assms o Returns show ?thesis
        by (auto simp: load_manifest_def split: if_splits)
    next
      case (Some p)
      obtain mft0 sz where p: "p = (mft0, sz)" by (cases p)
      obtain rc mft where v: "mft_validate env mft0 sz = (rc, mft)"
        by (cases "mft_validate env mft0 sz")
      from assms o Returns Some p v show ?thesis
        by (auto simp: load_manifest_def split: if_splits)
    qed
  qed
qed

lemma load_manifest_Cont:
  assumes "load_manifest env f w = Cont (fd, mft, sz, w') ev"
  shows "fst (open_rdonly env f w) = fd \<and> fd \<noteq> - 1 \<and>
         ev = [Call_open f, Call_elf_load_note fd, Call_mft_validate]"
proof -
  obtain fd0 w1 where o: "open_rdonly env f w = (fd0, w1)"
    by (cases "open_rdonly env f w")
  show ?thesis
  proof (cases "elf_load_note env fd0 f w1")
    case (Dies c)
    with assms o show ?thesis
      by (auto simp: load_manifest_def split: if_splits)
  next
    case (Returns nt w2)
    show ?thesis
    proof (cases nt)
      case None
      with assms o Returns show ?thesis
        by (auto simp: load_manifest_def split: if_splits)
    next
      case (Some p)
      obtain mft0 sz0 where p: "p = (mft0, sz0)" by (cases p)
      obtain rc mft1 where v: "mft_validate env mft0 sz0 = (rc, mft1)"
        by (cases "mft_validate env mft0 sz0")
      from assms o Returns Some p v show ?thesis
        by (auto simp: load_manifest_def split: if_splits)
    qed
  qed
qed

lemma handle_cmdarg_events:
  "e \<in> set (events (handle_cmdarg env cmdarg mft w)) \<Longrightarrow> parse_event e"
  using handle_cmdarg_loop_events [OF refl, of "modules env" 0 cmdarg mft w]
  by (auto simp: handle_cmdarg_def)

lemma handle_mem_events: "e \<in> set (events (handle_mem a)) \<Longrightarrow> parse_event e"
  by (auto simp: handle_mem_def Let_def split: option.splits if_splits)

lemma install_signal_handlers_events:
  "e \<in> set (events (install_signal_handlers env w)) \<Longrightarrow> guest_event e"
  by (auto simp: install_signal_handlers_def split: prod.splits if_splits)

lemma install_signal_handlers_class:
  "e \<in> set (events (install_signal_handlers env w)) \<Longrightarrow>
   (\<exists>n. e = Call_sigaction n) \<or> e = Err_signal_handler"
  by (auto simp: install_signal_handlers_def split: prod.splits if_splits)

lemma install_signal_handlers_Cont:
  "install_signal_handlers env w = Cont w' ev \<Longrightarrow>
   ev = [Call_sigaction SIGINT, Call_sigaction SIGTERM]"
  by (auto simp: install_signal_handlers_def split: prod.splits if_splits)

lemma load_guest_events:
  "e \<in> set (events (load_guest env fd f mem w)) \<Longrightarrow> guest_event e"
  by (auto simp: load_guest_def mem_events_seq call_eq_Cont split: prod.splits)

lemma load_guest_Cont:
  "load_guest env fd f mem w = Cont (kend, w') ev \<Longrightarrow>
   \<exists>mem' ep. ev = [Call_hvt_mem_size mem, Call_hvt_init mem', Call_elf_load fd, Call_close fd,
                   Call_hvt_vcpu_init ep]"
  by (auto simp: load_guest_def seq_eq_Cont call_eq_Cont after_eq_Cont split: prod.splits)

lemma load_guest_close:
  assumes "Call_close fd' \<in> set (events (load_guest env fd f mem w))"
  shows "\<exists>mem' ep. events (load_guest env fd f mem w) =
           [Call_hvt_mem_size mem, Call_hvt_init mem', Call_elf_load fd, Call_close fd,
            Call_hvt_vcpu_init ep]"
proof (cases "hvt_mem_size env mem w")
  case (Dies c)
  with assms show ?thesis by (simp add: load_guest_def)
next
  case ms: (Returns mem' w1)
  show ?thesis
  proof (cases "hvt_init env mem' w1")
    case (Dies c)
    with assms ms show ?thesis by (simp add: load_guest_def)
  next
    case hi: (Returns u w2)
    show ?thesis
    proof (cases "elf_load env fd f w2")
      case (Dies c)
      with assms ms hi show ?thesis by (simp add: load_guest_def)
    next
      case el: (Returns x w3)
      obtain ep kend where x: "x = (ep, kend)" by (cases x)
      show ?thesis
        using ms hi el x
        by (cases "hvt_vcpu_init env ep (close_fd env fd w3)") (simp_all add: load_guest_def)
    qed
  qed
qed

lemma drop_Cons_shift: "Suc i \<le> j \<Longrightarrow> drop (j - i) (a # as) = drop (j - Suc i) as"
proof -
  assume "Suc i \<le> j"
  then have "j - i = Suc (j - Suc i)" by arith
  then show ?thesis by simp
qed

lemma drop_Cons_shift2:
  "Suc (Suc i) \<le> j \<Longrightarrow> drop (j - i) (a # b # bs) = drop (j - Suc (Suc i)) bs"
  using drop_Cons_shift [of i j a "b # bs"] drop_Cons_shift [of "Suc i" j b bs] by simp

lemma pass2_invariant:
  "(\<forall>e \<in> set (events (pass2 env prog i as mem mft w)). parse_event e) \<and>
   (\<forall>j rest mem' mft' w' ev.
      pass2 env prog i as mem mft w = Cont (j, rest, mem', mft', w') ev \<longrightarrow>
      rest = drop (j - i) as \<and> i \<le> j \<and> j \<le> i + length as)"
proof (induction "length as" arbitrary: as i mem mft w rule: less_induct)
  case less
  note IH = less.hyps
  show ?case
  proof (cases as)
    case Nil
    then show ?thesis by simp
  next
    case (Cons a rest)
    consider (plain) "\<not> is_option a"
      | (dashes) "is_option a" "a = ''--''"
      | (mem) "is_option a" "a \<noteq> ''--''" "take 6 a = ''--mem=''"
      | (other) "is_option a" "a \<noteq> ''--''" "take 6 a \<noteq> ''--mem=''"
      by blast
    then show ?thesis
    proof cases
      case plain
      with Cons show ?thesis by simp
    next
      case dashes
      with Cons show ?thesis by simp
    next
      case mem
      show ?thesis
      proof (cases "handle_mem a")
        case (Stop oc ev0)
        with Cons mem show ?thesis
          using handle_mem_events [of _ a] by simp
      next
        case hm: (Cont m ev0)
        have e0: "\<forall>e \<in> set ev0. parse_event e"
          using handle_mem_events [of _ a] hm by simp
        show ?thesis
        proof (cases "handle_cmdarg env (case rest of [] \<Rightarrow> None | b # bs \<Rightarrow> Some b) mft w")
          case (Stop oc ev1)
          have "\<forall>e \<in> set ev1. parse_event e"
            using handle_cmdarg_events [of _ env "case rest of [] \<Rightarrow> None | b # bs \<Rightarrow> Some b" mft w]
              Stop by simp
          with Cons mem hm Stop e0 show ?thesis by auto
        next
          case hc: (Cont x ev1)
          obtain rc mft' w' where x: "x = (rc, mft', w')" by (cases x)
          have e1: "\<forall>e \<in> set ev1. parse_event e"
            using handle_cmdarg_events [of _ env "case rest of [] \<Rightarrow> None | b # bs \<Rightarrow> Some b" mft w]
              hc by simp
          show ?thesis
          proof (cases "rc = 0")
            case True
            show ?thesis
            proof (cases rest)
              case Nil
              with Cons mem hm hc x True e0 e1 show ?thesis by auto
            next
              case rest: (Cons b bs)
              have step: "pass2 env prog i as mem mft w =
                  after (ev0 @ ev1) (pass2 env prog (i + 2) bs m mft' w')"
                using Cons mem hm hc x True rest by simp
              have "length bs < length as" using Cons rest by simp
              from IH [of bs "i + 2" m mft' w'] this show ?thesis
                unfolding step using e0 e1 Cons rest
                by (auto simp: after_eq_Cont drop_Cons_shift drop_Cons_shift2)
            qed
          next
            case False
            have step: "pass2 env prog i as mem mft w =
                after (ev0 @ ev1) (pass2 env prog (Suc i) rest m mft' w')"
              using Cons mem hm hc x False by simp
            have "length rest < length as" using Cons by simp
            from IH [of rest "Suc i" m mft' w'] this show ?thesis
              unfolding step using e0 e1 Cons
              by (auto simp: after_eq_Cont drop_Cons_shift drop_Cons_shift2)
          qed
        qed
      qed
    next
      case other
      show ?thesis
      proof (cases "handle_cmdarg env (Some a) mft w")
        case (Stop oc ev1)
        have "\<forall>e \<in> set ev1. parse_event e"
          using handle_cmdarg_events [of _ env "Some a" mft w] Stop by simp
        with Cons other Stop show ?thesis by auto
      next
        case hc: (Cont x ev1)
        obtain rc mft' w' where x: "x = (rc, mft', w')" by (cases x)
        have e1: "\<forall>e \<in> set ev1. parse_event e"
          using handle_cmdarg_events [of _ env "Some a" mft w] hc by simp
        show ?thesis
        proof (cases "rc = 0")
          case True
          have step: "pass2 env prog i as mem mft w =
              after ev1 (pass2 env prog (Suc i) rest mem mft' w')"
            using Cons other hc x True by simp
          have "length rest < length as" using Cons by simp
          from IH [of rest "Suc i" mem mft' w'] this show ?thesis
            unfolding step using e1 Cons
            by (auto simp: after_eq_Cont drop_Cons_shift drop_Cons_shift2)
        next
          case False
          with Cons other hc x e1 show ?thesis by (auto simp: usage_def)
        qed
      qed
    qed
  qed
qed

lemma pass2_events:
  "e \<in> set (events (pass2 env prog i as mem mft w)) \<Longrightarrow> parse_event e"
  using pass2_invariant [of env prog i as mem mft w] by blast

lemma pass2_cursor:
  "pass2 env prog i as mem mft w = Cont (j, rest, mem', mft', w') ev \<Longrightarrow>
   rest = drop (j - i) as \<and> i \<le> j \<and> j \<le> i + length as"
  using pass2_invariant [of env prog i as mem mft w] by blast

lemma setup_loop_class:
  "e \<in> set (events (setup_loop ms i mft w)) \<Longrightarrow>
   (\<exists>j. e = Call_setup j) \<or> (\<exists>n. e = Warn_setup_failed n) \<or> (\<exists>u. e = Warn_check_usage u)"
proof (induction ms arbitrary: i mft w)
  case Nil
  then show ?case by simp
next
  case (Cons m ms)
  show ?case
  proof (cases "ops_setup m")
    case None
    with Cons.prems show ?thesis by simp
  next
    case (Some f)
    show ?thesis
    proof (cases "f mft w")
      case (Dies c)
      with Some Cons.prems show ?thesis by simp
    next
      case (Returns x w')
      obtain rc mft' where x: "x = (rc, mft')" by (cases x)
      show ?thesis
      proof (cases "rc = 0")
        case True
        with Some Returns x Cons.prems
        have "e = Call_setup i \<or> e \<in> set (events (setup_loop ms (Suc i) mft' w'))" by simp
        then show ?thesis using Cons.IH [of "Suc i" mft' w'] by blast
      next
        case False
        with Some Returns x Cons.prems show ?thesis
          by (cases "ops_usage m") auto
      qed
    qed
  qed
qed

lemma audit_attached_events:
  "e \<in> set (events (audit_attached env mft w)) \<Longrightarrow>
   (\<exists>n t. e = Warn_not_attached n t) \<or> e = Err_must_attach"
  by (auto simp: audit_attached_def check_attached_eq split: if_splits)

lemma audit_attached_warning:
  "Warn_not_attached n t \<in> set (events (audit_attached env mft w)) \<Longrightarrow>
   \<exists>ev. audit_attached env mft w = Stop (Exit 1) ev"
  by (auto simp: audit_attached_def check_attached_eq split: if_splits)

lemma setup_modules_events:
  assumes "e \<in> set (events (setup_modules env mft w))"
  shows "setup_event e"
proof -
  have l: "setup_event e" if "e \<in> set (events (setup_loop (modules env) 0 mft w))"
    using setup_loop_class [OF that] by auto
  have a: "setup_event e" if "e \<in> set (events (audit_attached env mft' w'))" for mft' w'
    using audit_attached_events [OF that] by auto
  from assms show ?thesis
    unfolding setup_modules_def mem_events_seq using l a by auto
qed

lemma setup_modules_Cont:
  assumes "setup_modules env mft w = Cont (mft', w') ev"
  shows "ev = map Call_setup [0..<length (modules env)]"
proof -
  from assms obtain x ev1 ev2 where
    l: "setup_loop (modules env) 0 mft w = Cont x ev1" and
    a: "(case x of (mft', w') \<Rightarrow> audit_attached env mft' w') = Cont (mft', w') ev2" and
    ev: "ev = ev1 @ ev2"
    unfolding setup_modules_def seq_eq_Cont by blast
  have "ev2 = []"
    using a by (auto simp: audit_attached_def check_attached_eq split: prod.splits if_splits)
  then show ?thesis using setup_loop_events [OF l] ev by simp
qed

lemma setup_modules_audit:
  assumes "setup_modules env mft w = Cont (mft', w') ev"
  shows "filter (\<lambda>x. type x < MFT_RESERVED_FIRST env \<and> \<not> attached x) mft' = []"
proof -
  from assms obtain x ev1 ev2 where
    a: "(case x of (mft1, w1) \<Rightarrow> audit_attached env mft1 w1) = Cont (mft', w') ev2"
    unfolding setup_modules_def seq_eq_Cont by blast
  then show ?thesis
    by (auto simp: audit_attached_def check_attached_eq split: prod.splits if_splits)
qed

lemma setup_modules_warning:
  assumes "Warn_not_attached n t \<in> set (events (setup_modules env mft w))"
  shows "\<exists>ev. setup_modules env mft w = Stop (Exit 1) ev"
proof (cases "setup_loop (modules env) 0 mft w")
  case (Stop oc ev)
  then have "events (setup_modules env mft w) = events (setup_loop (modules env) 0 mft w)"
    by (simp add: setup_modules_def)
  with assms setup_loop_class [of "Warn_not_attached n t" "modules env" 0 mft w]
  show ?thesis by auto
next
  case (Cont x ev)
  obtain mft' w' where x: "x = (mft', w')" by (cases x)
  have s: "setup_modules env mft w = after ev (audit_attached env mft' w')"
    using Cont x by (simp add: setup_modules_def)
  have "Warn_not_attached n t \<notin> set ev"
    using setup_loop_events [OF Cont] by auto
  with assms s have "Warn_not_attached n t \<in> set (events (audit_attached env mft' w'))"
    by simp
  from audit_attached_warning [OF this] s show ?thesis by auto
qed

subsection \<open>The second scan\<close>

lemma handle_cmdarg_tokens:
  "Call_handle_cmdarg k t \<in> set (events (handle_cmdarg env cmdarg mft w)) \<Longrightarrow> t = cmdarg"
  using handle_cmdarg_loop_events [OF refl, of "modules env" 0 cmdarg mft w]
  by (auto simp: handle_cmdarg_def)

lemma handle_mem_Cont: "handle_mem a = Cont m ev \<Longrightarrow> ev = []"
  by (auto simp: handle_mem_def Let_def split: option.splits if_splits)

lemma handle_mem_no_calls:
  "Call_handle_cmdarg k t \<notin> set (events (handle_mem a))"
  by (auto simp: handle_mem_def Let_def split: option.splits if_splits)

lemma pass2_tokens:
  "(\<forall>k t. Call_handle_cmdarg k t \<in> set (events (pass2 env prog i as mem mft w)) \<longrightarrow>
      t = None \<or> t \<in> Some ` set as) \<and>
   ((\<forall>b \<in> set as. take 6 b \<noteq> ''--mem='') \<longrightarrow>
      (\<forall>j rest mem' mft' w' ev.
         pass2 env prog i as mem mft w = Cont (j, rest, mem', mft', w') ev \<longrightarrow> mem' = mem))"
proof (induction "length as" arbitrary: as i mem mft w rule: less_induct)
  case less
  note IH = less.hyps
  show ?case
  proof (cases as)
    case Nil
    then show ?thesis by simp
  next
    case (Cons a rest)
    consider (plain) "\<not> is_option a"
      | (dashes) "is_option a" "a = ''--''"
      | (mem) "is_option a" "a \<noteq> ''--''" "take 6 a = ''--mem=''"
      | (other) "is_option a" "a \<noteq> ''--''" "take 6 a \<noteq> ''--mem=''"
      by blast
    then show ?thesis
    proof cases
      case plain
      with Cons show ?thesis by simp
    next
      case dashes
      with Cons show ?thesis by simp
    next
      case mem
      show ?thesis
      proof (cases "handle_mem a")
        case (Stop oc ev0)
        with Cons mem show ?thesis
          using handle_mem_no_calls [of _ _ a] by simp
      next
        case hm: (Cont m ev0)
        have e0: "ev0 = []" using handle_mem_Cont [OF hm] .
        show ?thesis
        proof (cases "handle_cmdarg env (case rest of [] \<Rightarrow> None | b # bs \<Rightarrow> Some b) mft w")
          case (Stop oc ev1)
          have "\<forall>k t. Call_handle_cmdarg k t \<in> set ev1 \<longrightarrow>
              t = (case rest of [] \<Rightarrow> None | b # bs \<Rightarrow> Some b)"
            using handle_cmdarg_tokens
              [of _ _ env "case rest of [] \<Rightarrow> None | b # bs \<Rightarrow> Some b" mft w] Stop
            by simp
          with Cons mem hm Stop e0 show ?thesis by (auto split: list.splits)
        next
          case hc: (Cont x ev1)
          obtain rc mft' w' where x: "x = (rc, mft', w')" by (cases x)
          have e1: "\<forall>k t. Call_handle_cmdarg k t \<in> set ev1 \<longrightarrow>
              t = (case rest of [] \<Rightarrow> None | b # bs \<Rightarrow> Some b)"
            using handle_cmdarg_tokens
              [of _ _ env "case rest of [] \<Rightarrow> None | b # bs \<Rightarrow> Some b" mft w] hc
            by simp
          show ?thesis
          proof (cases "rc = 0")
            case True
            show ?thesis
            proof (cases rest)
              case Nil
              with Cons mem hm hc x True e0 e1 show ?thesis by auto
            next
              case rest: (Cons b bs)
              have step: "pass2 env prog i as mem mft w =
                  after ev1 (pass2 env prog (i + 2) bs m mft' w')"
                using Cons mem hm hc x True rest e0 by simp
              have "length bs < length as" using Cons rest by simp
              from IH [of bs "i + 2" m mft' w'] this show ?thesis
                unfolding step using e1 Cons rest mem(3)
                by (auto simp: after_eq_Cont events_after simp del: pass2.simps)
            qed
          next
            case False
            have step: "pass2 env prog i as mem mft w =
                after ev1 (pass2 env prog (Suc i) rest m mft' w')"
              using Cons mem hm hc x False e0 by simp
            have "length rest < length as" using Cons by simp
            from IH [of rest "Suc i" m mft' w'] this show ?thesis
              unfolding step using e1 Cons mem(3)
              by (auto simp: after_eq_Cont events_after simp del: pass2.simps split: list.splits)
          qed
        qed
      qed
    next
      case other
      show ?thesis
      proof (cases "handle_cmdarg env (Some a) mft w")
        case (Stop oc ev1)
        have "\<forall>k t. Call_handle_cmdarg k t \<in> set ev1 \<longrightarrow> t = Some a"
          using handle_cmdarg_tokens [of _ _ env "Some a" mft w] Stop by simp
        with Cons other Stop show ?thesis by auto
      next
        case hc: (Cont x ev1)
        obtain rc mft' w' where x: "x = (rc, mft', w')" by (cases x)
        have e1: "\<forall>k t. Call_handle_cmdarg k t \<in> set ev1 \<longrightarrow> t = Some a"
          using handle_cmdarg_tokens [of _ _ env "Some a" mft w] hc by simp
        show ?thesis
        proof (cases "rc = 0")
          case True
          have step: "pass2 env prog i as mem mft w =
              after ev1 (pass2 env prog (Suc i) rest mem mft' w')"
            using Cons other hc x True by simp
          have "length rest < length as" using Cons by simp
          from IH [of rest "Suc i" mem mft' w'] this show ?thesis
            unfolding step using e1 Cons
            by (auto simp: after_eq_Cont events_after simp del: pass2.simps)
        next
          case False
          with Cons other hc x e1 show ?thesis by (auto simp: usage_def)
        qed
      qed
    qed
  qed
qed

lemma mem_head_consumed:
  assumes a: "take 6 a = ''--mem=''"
    and later: "\<forall>b \<in> set as. take 6 b \<noteq> ''--mem=''"
  shows "(\<forall>k. Call_handle_cmdarg k (Some a) \<notin>
            set (events (pass2 env prog i (a # as) mem0 mft w))) \<and>
         (\<forall>oc ev. handle_mem a = Stop oc ev \<longrightarrow>
            pass2 env prog i (a # as) mem0 mft w = Stop oc ev) \<and>
         (\<forall>j rest mem' mft' w' ev.
            pass2 env prog i (a # as) mem0 mft w = Cont (j, rest, mem', mft', w') ev \<longrightarrow>
            handle_mem a = Cont mem' [] \<and> i < j \<and> rest = drop (j - Suc i) as)"
proof -
  have "a = take 6 a @ drop 6 a" by simp
  then have shape: "a = ''--mem='' @ drop 6 a" using a by simp
  obtain sfx where sfx: "a = ''--mem='' @ sfx" using shape ..
  have opt: "is_option a" "a \<noteq> ''--''"
    unfolding sfx by (simp_all add: is_option_def)
  have fresh: "a \<notin> set as" using a later by blast
  show ?thesis
  proof (cases "handle_mem a")
    case (Stop oc ev0)
    then have "pass2 env prog i (a # as) mem0 mft w = Stop oc ev0"
      using opt a by simp
    then show ?thesis using Stop handle_mem_no_calls [of _ "Some a" a] by simp
  next
    case hm: (Cont m ev0)
    have e0: "ev0 = []" using handle_mem_Cont [OF hm] .
    let ?tok = "case as of [] \<Rightarrow> None | b # bs \<Rightarrow> Some b"
    have tok: "?tok \<noteq> Some a" using fresh by (auto split: list.splits)
    show ?thesis
    proof (cases "handle_cmdarg env ?tok mft w")
      case (Stop oc ev1)
      have "\<forall>k. Call_handle_cmdarg k (Some a) \<notin> set ev1"
        using handle_cmdarg_tokens [of _ "Some a" env ?tok mft w] Stop tok by auto
      moreover have "pass2 env prog i (a # as) mem0 mft w = Stop oc ev1"
        using opt a hm e0 Stop by simp
      ultimately show ?thesis using hm by simp
    next
      case hc: (Cont x ev1)
      obtain rc mft1 w1 where x: "x = (rc, mft1, w1)" by (cases x)
      have e1: "\<forall>k. Call_handle_cmdarg k (Some a) \<notin> set ev1"
        using handle_cmdarg_tokens [of _ "Some a" env ?tok mft w] hc tok by auto
      show ?thesis
      proof (cases "rc = 0")
        case True
        show ?thesis
        proof (cases as)
          case Nil
          then have "pass2 env prog i (a # as) mem0 mft w = Stop Undefined ev1"
            using opt a hm e0 hc x True by simp
          then show ?thesis using hm e1 by simp
        next
          case (Cons b bs)
          have step: "pass2 env prog i (a # as) mem0 mft w =
              after ev1 (pass2 env prog (i + 2) bs m mft1 w1)"
            using opt a hm e0 hc x True Cons by simp
          have l: "\<forall>c \<in> set bs. take 6 c \<noteq> ''--mem=''" using later Cons by simp
          have f: "a \<notin> set bs" using fresh Cons by simp
          have t: "\<forall>k. Call_handle_cmdarg k (Some a) \<notin>
              set (events (pass2 env prog (i + 2) bs m mft1 w1))"
            using pass2_tokens [of env prog "i + 2" bs m mft1 w1] f by blast
          have c: "\<forall>j rest mem' mft' w' ev.
              pass2 env prog (i + 2) bs m mft1 w1 = Cont (j, rest, mem', mft', w') ev \<longrightarrow>
              mem' = m \<and> i < j \<and> rest = drop (j - Suc i) as"
          proof (intro allI impI)
            fix j rest mem' mft' w' ev
            assume r: "pass2 env prog (i + 2) bs m mft1 w1 = Cont (j, rest, mem', mft', w') ev"
            have "mem' = m" using pass2_tokens [of env prog "i + 2" bs m mft1 w1] l r by blast
            moreover from pass2_cursor [OF r]
            have "rest = drop (j - (i + 2)) bs" "i + 2 \<le> j" by simp_all
            moreover then have "drop (j - Suc i) as = drop (j - (i + 2)) bs"
              using Cons drop_Cons_shift [of "Suc i" j b bs] by simp
            ultimately show "mem' = m \<and> i < j \<and> rest = drop (j - Suc i) as" by simp
          qed
          show ?thesis unfolding step using t c e1 hm e0
            by (auto simp: after_eq_Cont events_after simp del: pass2.simps)
        qed
      next
        case False
        have step: "pass2 env prog i (a # as) mem0 mft w =
            after ev1 (pass2 env prog (Suc i) as m mft1 w1)"
          using opt a hm e0 hc x False by simp
        have t: "\<forall>k. Call_handle_cmdarg k (Some a) \<notin>
            set (events (pass2 env prog (Suc i) as m mft1 w1))"
          using pass2_tokens [of env prog "Suc i" as m mft1 w1] fresh by blast
        have c: "\<forall>j rest mem' mft' w' ev.
            pass2 env prog (Suc i) as m mft1 w1 = Cont (j, rest, mem', mft', w') ev \<longrightarrow>
            mem' = m \<and> i < j \<and> rest = drop (j - Suc i) as"
        proof (intro allI impI)
          fix j rest mem' mft' w' ev
          assume r: "pass2 env prog (Suc i) as m mft1 w1 = Cont (j, rest, mem', mft', w') ev"
          have "mem' = m" using pass2_tokens [of env prog "Suc i" as m mft1 w1] later r by blast
          moreover from pass2_cursor [OF r]
          have "rest = drop (j - Suc i) as" "Suc i \<le> j" by simp_all
          ultimately show "mem' = m \<and> i < j \<and> rest = drop (j - Suc i) as" by simp
        qed
        show ?thesis unfolding step using t c e1 hm e0
          by (auto simp: after_eq_Cont events_after simp del: pass2.simps)
      qed
    qed
  qed
qed

lemma usage_no_calls:
  "Call_handle_cmdarg k t \<notin> set (events (usage env prog))"
  by (simp add: usage_def)

lemma handle_cmdarg_calls:
  "e \<in> set (events (handle_cmdarg env cmdarg mft w)) \<Longrightarrow> \<exists>k. e = Call_handle_cmdarg k cmdarg"
  using handle_cmdarg_loop_events [OF refl, of "modules env" 0 cmdarg mft w]
  by (auto simp: handle_cmdarg_def)

lemma pass2_Cont_calls:
  "pass2 env prog i as mem mft w = Cont x ev \<Longrightarrow> e \<in> set ev \<Longrightarrow>
   \<exists>k t. e = Call_handle_cmdarg k t"
proof (induction "length as" arbitrary: as i mem mft w x ev rule: less_induct)
  case less
  note IH = less.hyps
  note r = less.prems(1)
  note e = less.prems(2)
  show ?case
  proof (cases as)
    case Nil
    with r e show ?thesis by simp
  next
    case (Cons a rest)
    consider (plain) "\<not> is_option a"
      | (dashes) "is_option a" "a = ''--''"
      | (mem) "is_option a" "a \<noteq> ''--''" "take 6 a = ''--mem=''"
      | (other) "is_option a" "a \<noteq> ''--''" "take 6 a \<noteq> ''--mem=''"
      by blast
    then show ?thesis
    proof cases
      case plain
      with Cons r e show ?thesis by simp
    next
      case dashes
      with Cons r e show ?thesis by simp
    next
      case mem
      show ?thesis
      proof (cases "handle_mem a")
        case (Stop oc ev0)
        with Cons mem r show ?thesis by simp
      next
        case hm: (Cont m ev0)
        have e0: "ev0 = []" using handle_mem_Cont [OF hm] .
        let ?tok = "case rest of [] \<Rightarrow> None | b # bs \<Rightarrow> Some b"
        show ?thesis
        proof (cases "handle_cmdarg env ?tok mft w")
          case (Stop oc ev1)
          with Cons mem hm r show ?thesis by simp
        next
          case hc: (Cont y ev1)
          obtain rc mft' w' where y: "y = (rc, mft', w')" by (cases y)
          have e1: "\<forall>e \<in> set ev1. \<exists>k t. e = Call_handle_cmdarg k t"
            using handle_cmdarg_calls [of _ env ?tok mft w] hc by fastforce
          show ?thesis
          proof (cases "rc = 0")
            case True
            show ?thesis
            proof (cases rest)
              case Nil
              with Cons mem hm hc y True r show ?thesis by simp
            next
              case rest: (Cons b bs)
              have step: "pass2 env prog i as mem mft w =
                  after ev1 (pass2 env prog (i + 2) bs m mft' w')"
                using Cons mem hm hc y True rest e0 by simp
              from r [unfolded step] obtain ev2 where
                r2: "pass2 env prog (i + 2) bs m mft' w' = Cont x ev2" and ev: "ev = ev1 @ ev2"
                by (auto simp: after_eq_Cont)
              have "length bs < length as" using Cons rest by simp
              from IH [OF this r2] e1 e ev show ?thesis by auto
            qed
          next
            case False
            have step: "pass2 env prog i as mem mft w =
                after ev1 (pass2 env prog (Suc i) rest m mft' w')"
              using Cons mem hm hc y False e0 by simp
            from r [unfolded step] obtain ev2 where
              r2: "pass2 env prog (Suc i) rest m mft' w' = Cont x ev2" and ev: "ev = ev1 @ ev2"
              by (auto simp: after_eq_Cont)
            have "length rest < length as" using Cons by simp
            from IH [OF this r2] e1 e ev show ?thesis by auto
          qed
        qed
      qed
    next
      case other
      show ?thesis
      proof (cases "handle_cmdarg env (Some a) mft w")
        case (Stop oc ev1)
        with Cons other r show ?thesis by simp
      next
        case hc: (Cont y ev1)
        obtain rc mft' w' where y: "y = (rc, mft', w')" by (cases y)
        have e1: "\<forall>e \<in> set ev1. \<exists>k t. e = Call_handle_cmdarg k t"
          using handle_cmdarg_calls [of _ env "Some a" mft w] hc by fastforce
        show ?thesis
        proof (cases "rc = 0")
          case True
          have step: "pass2 env prog i as mem mft w =
              after ev1 (pass2 env prog (Suc i) rest mem mft' w')"
            using Cons other hc y True by simp
          from r [unfolded step] obtain ev2 where
            r2: "pass2 env prog (Suc i) rest mem mft' w' = Cont x ev2" and ev: "ev = ev1 @ ev2"
            by (auto simp: after_eq_Cont)
          have "length rest < length as" using Cons by simp
          from IH [OF this r2] e1 e ev show ?thesis by auto
        next
          case False
          with Cons other hc y r show ?thesis by (simp add: usage_def)
        qed
      qed
    qed
  qed
qed

lemma pass2_Cont_map:
  assumes "pass2 env prog i as mem mft w = Cont x ev"
  shows "\<exists>calls. ev = map (\<lambda>(k, t). Call_handle_cmdarg k t) calls"
proof -
  have "\<forall>e \<in> set ev. \<exists>c. e = (\<lambda>(k, t). Call_handle_cmdarg k t) c"
    using pass2_Cont_calls [OF assms] by fastforce
  then show ?thesis by (simp only: ex_map_conv)
qed

lemma handle_cmdarg_loop_claim:
  assumes "\<forall>m \<in> set ms. \<forall>h t mft w mft' w'.
      ops_handle_cmdarg m = Some h \<longrightarrow> h t mft w = Returns (0, mft') w' \<longrightarrow> P t"
    and "handle_cmdarg_loop ms i t mft w = Cont (0, mft', w') ev"
  shows "P t"
  using assms
proof (induction ms arbitrary: i mft w ev)
  case Nil
  then show ?case by simp
next
  case (Cons m ms)
  have H: "\<forall>m \<in> set ms. \<forall>h t mft w mft' w'.
      ops_handle_cmdarg m = Some h \<longrightarrow> h t mft w = Returns (0, mft') w' \<longrightarrow> P t"
    using Cons.prems(1) by simp
  show ?case
  proof (cases "ops_handle_cmdarg m")
    case None
    with Cons.prems(2) have "handle_cmdarg_loop ms (Suc i) t mft w = Cont (0, mft', w') ev"
      by simp
    from Cons.IH [OF H this] show ?thesis .
  next
    case (Some h)
    show ?thesis
    proof (cases "h t mft w")
      case (Dies c)
      with Some Cons.prems(2) show ?thesis by simp
    next
      case (Returns x w1)
      obtain rc mft1 where x: "x = (rc, mft1)" by (cases x)
      show ?thesis
      proof (cases "rc = 0")
        case True
        have "m \<in> set (m # ms)" by simp
        with Cons.prems(1) Some Returns x True show ?thesis by blast
      next
        case False
        with Some Returns x Cons.prems(2) obtain ev' where
          "handle_cmdarg_loop ms (Suc i) t mft1 w1 = Cont (0, mft', w') ev'"
          by (auto simp: after_eq_Cont)
        from Cons.IH [OF H this] show ?thesis .
      qed
    qed
  qed
qed

lemma handle_cmdarg_claim:
  assumes "\<forall>m \<in> set (modules env). \<forall>h t mft w mft' w'.
      ops_handle_cmdarg m = Some h \<longrightarrow> h t mft w = Returns (0, mft') w' \<longrightarrow> P t"
    and "handle_cmdarg env t mft w = Cont (0, mft', w') ev"
  shows "P t"
  using handle_cmdarg_loop_claim [OF assms(1) assms(2) [unfolded handle_cmdarg_def]] .

lemma pass1_step:
  assumes "pass1 env prog i (a # as) = Cont k ev" and "is_option a" and "a \<noteq> ''--''"
  shows "pass1 env prog (Suc i) as = Cont k ev"
  using assms by (auto simp: usage_def version_def split: if_splits)

lemma scans_agree:
  assumes H: "\<forall>m \<in> set (modules env). \<forall>h t mft w mft' w'.
      ops_handle_cmdarg m = Some h \<longrightarrow> h t mft w = Returns (0, mft') w' \<longrightarrow>
      (\<exists>s. t = Some s \<and> is_option s \<and> s \<noteq> ''--'')"
  shows "pass1 env prog i as = Cont k ev1 \<Longrightarrow>
         pass2 env prog i as mem mft w = Cont (j, rest, mem', mft', w') ev2 \<Longrightarrow> j = k"
proof (induction "length as" arbitrary: as i mem mft w ev2 rule: less_induct)
  case less
  note IH = less.hyps
  note p1 = less.prems(1)
  note p2 = less.prems(2)
  show ?case
  proof (cases as)
    case Nil
    with p1 p2 show ?thesis by simp
  next
    case (Cons a tl0)
    consider (plain) "\<not> is_option a"
      | (dashes) "is_option a" "a = ''--''"
      | (mem) "is_option a" "a \<noteq> ''--''" "take 6 a = ''--mem=''"
      | (other) "is_option a" "a \<noteq> ''--''" "take 6 a \<noteq> ''--mem=''"
      by blast
    then show ?thesis
    proof cases
      case plain
      with Cons p1 p2 show ?thesis by simp
    next
      case dashes
      with Cons p1 p2 show ?thesis by simp
    next
      case mem
      have q1: "pass1 env prog (Suc i) tl0 = Cont k ev1"
        using pass1_step [OF p1 [unfolded Cons] mem(1) mem(2)] .
      show ?thesis
      proof (cases "handle_mem a")
        case (Stop oc ev0)
        with Cons mem p2 show ?thesis by simp
      next
        case hm: (Cont m ev0)
        have e0: "ev0 = []" using handle_mem_Cont [OF hm] .
        let ?tok = "case tl0 of [] \<Rightarrow> None | b # bs \<Rightarrow> Some b"
        show ?thesis
        proof (cases "handle_cmdarg env ?tok mft w")
          case (Stop oc ev')
          with Cons mem hm p2 show ?thesis by simp
        next
          case hc: (Cont y ev')
          obtain rc mft1 w1 where y: "y = (rc, mft1, w1)" by (cases y)
          show ?thesis
          proof (cases "rc = 0")
            case True
            from handle_cmdarg_claim [OF H hc [unfolded y True]]
            obtain s where s: "?tok = Some s" "is_option s" "s \<noteq> ''--''" by blast
            then obtain bs where tl0: "tl0 = s # bs" by (cases tl0) auto
            have step: "pass2 env prog i as mem mft w =
                after ev' (pass2 env prog (i + 2) bs m mft1 w1)"
              using Cons mem hm hc y True tl0 e0 by simp
            from p2 [unfolded step] obtain ev3 where
              r2: "pass2 env prog (i + 2) bs m mft1 w1 = Cont (j, rest, mem', mft', w') ev3"
              by (auto simp: after_eq_Cont)
            have "pass1 env prog (Suc (Suc i)) bs = Cont k ev1"
              using pass1_step [OF q1 [unfolded tl0] s(2) s(3)] .
            then have q2: "pass1 env prog (i + 2) bs = Cont k ev1" by simp
            have "length bs < length as" using Cons tl0 by simp
            from IH [OF this q2 r2] show ?thesis .
          next
            case False
            have step: "pass2 env prog i as mem mft w =
                after ev' (pass2 env prog (Suc i) tl0 m mft1 w1)"
              using Cons mem hm hc y False e0 by simp
            from p2 [unfolded step] obtain ev3 where
              r2: "pass2 env prog (Suc i) tl0 m mft1 w1 = Cont (j, rest, mem', mft', w') ev3"
              by (auto simp: after_eq_Cont)
            have "length tl0 < length as" using Cons by simp
            from IH [OF this q1 r2] show ?thesis .
          qed
        qed
      qed
    next
      case other
      have q1: "pass1 env prog (Suc i) tl0 = Cont k ev1"
        using pass1_step [OF p1 [unfolded Cons] other(1) other(2)] .
      show ?thesis
      proof (cases "handle_cmdarg env (Some a) mft w")
        case (Stop oc ev')
        with Cons other p2 show ?thesis by simp
      next
        case hc: (Cont y ev')
        obtain rc mft1 w1 where y: "y = (rc, mft1, w1)" by (cases y)
        show ?thesis
        proof (cases "rc = 0")
          case True
          have step: "pass2 env prog i as mem mft w =
              after ev' (pass2 env prog (Suc i) tl0 mem mft1 w1)"
            using Cons other hc y True by simp
          from p2 [unfolded step] obtain ev3 where
            r2: "pass2 env prog (Suc i) tl0 mem mft1 w1 = Cont (j, rest, mem', mft', w') ev3"
            by (auto simp: after_eq_Cont)
          have "length tl0 < length as" using Cons by simp
          from IH [OF this q1 r2] show ?thesis .
        next
          case False
          with Cons other hc y p2 show ?thesis by (simp add: usage_def)
        qed
      qed
    qed
  qed
qed




subsection \<open>The structure of a run\<close>

lemma main_parsed:
  assumes e: "e \<in> set (events (main env prog args w))" and np: "\<not> parse_event e"
  shows "\<exists>k fd mft msz w1 ev1 argv mem mft1 w2 ev2.
     pass1 env prog 0 args = Cont k [] \<and> k < length args \<and>
     load_manifest env (args ! k) w = Cont (fd, mft, msz, w1) ev1 \<and>
     pass2 env prog 0 args 0x20000000 mft w1 = Cont (k, argv, mem, mft1, w2) ev2 \<and>
     main env prog args w =
       after (ev1 @ ev2)
         (seq (install_signal_handlers env w2) (\<lambda>w3.
          seq (load_guest env fd (args ! k) mem w3) (\<lambda>(kend, w4).
          run_guest env kend (tl argv) mft1 msz w4)))"
proof (cases "pass1 env prog 0 args")
  case (Stop oc ev0)
  then have "events (main env prog args w) = events (pass1 env prog 0 args)"
    by (simp add: main_def)
  with e np pass1_events [of e env prog 0 args] show ?thesis by simp
next
  case p1: (Cont k ev0)
  have ev0: "ev0 = []" using pass1_Cont [OF p1] by simp
  show ?thesis
  proof (cases "length args \<le> k")
    case True
    with p1 ev0 have "events (main env prog args w) =
        Warn_missing_kernel # events (usage env prog :: int result)"
      by (simp add: main_def)
    with e np usage_events [of e env prog] show ?thesis by (auto simp: usage_def)
  next
    case k: False
    show ?thesis
    proof (cases "load_manifest env (args ! k) w")
      case (Stop oc ev1)
      with p1 ev0 k have "events (main env prog args w) = events (load_manifest env (args ! k) w)"
        by (simp add: main_def)
      with e np load_manifest_events [of e env "args ! k" w] show ?thesis by simp
    next
      case lm: (Cont x ev1)
      obtain fd mft msz w1 where x: "x = (fd, mft, msz, w1)" by (cases x)
      have pe1: "\<forall>e \<in> set ev1. parse_event e"
        using load_manifest_events [of _ env "args ! k" w] lm by simp
      show ?thesis
      proof (cases "pass2 env prog 0 args 0x20000000 mft w1")
        case (Stop oc ev2)
        with p1 ev0 k lm x have "events (main env prog args w) = ev1 @ ev2"
          by (simp add: main_def)
        moreover have "\<forall>e \<in> set ev2. parse_event e"
          using pass2_events [of _ env prog 0 args "0x20000000" mft w1] Stop by simp
        ultimately show ?thesis using e np pe1 by auto
      next
        case p2: (Cont y ev2)
        obtain j argv mem mft1 w2 where y: "y = (j, argv, mem, mft1, w2)" by (cases y)
        have pe2: "\<forall>e \<in> set ev2. parse_event e"
          using pass2_events [of _ env prog 0 args "0x20000000" mft w1] p2 by simp
        show ?thesis
        proof (cases "j = k")
          case False
          with p1 ev0 k lm x p2 y have "events (main env prog args w) = ev1 @ ev2"
            by (simp add: main_def)
          then show ?thesis using e np pe1 pe2 by auto
        next
          case jk: True
          have "main env prog args w =
              after (ev1 @ ev2)
                (seq (install_signal_handlers env w2) (\<lambda>w3.
                 seq (load_guest env fd (args ! k) mem w3) (\<lambda>(kend, w4).
                 run_guest env kend (tl argv) mft1 msz w4)))"
            using p1 ev0 k lm x p2 y jk by (simp add: main_def)
          then show ?thesis using p1 ev0 k lm x p2 y jk by auto
        qed
      qed
    qed
  qed
qed

lemma main_late:
  assumes e: "e \<in> set (events (main env prog args w))"
    and np: "\<not> parse_event e" and ng: "\<not> guest_event e"
  shows "\<exists>k fd mft msz w1 ev1 argv mem mft1 w2 ev2 w3 ev3 kend w4 ev4.
     pass1 env prog 0 args = Cont k [] \<and> k < length args \<and>
     load_manifest env (args ! k) w = Cont (fd, mft, msz, w1) ev1 \<and>
     pass2 env prog 0 args 0x20000000 mft w1 = Cont (k, argv, mem, mft1, w2) ev2 \<and>
     install_signal_handlers env w2 = Cont w3 ev3 \<and>
     load_guest env fd (args ! k) mem w3 = Cont (kend, w4) ev4 \<and>
     main env prog args w =
       after (ev1 @ ev2 @ ev3 @ ev4) (run_guest env kend (tl argv) mft1 msz w4)"
proof -
  from main_parsed [OF e np]
  obtain k fd mft msz w1 ev1 argv mem mft1 w2 ev2 where
    p1: "pass1 env prog 0 args = Cont k []" and k: "k < length args" and
    lm: "load_manifest env (args ! k) w = Cont (fd, mft, msz, w1) ev1" and
    p2: "pass2 env prog 0 args 0x20000000 mft w1 = Cont (k, argv, mem, mft1, w2) ev2" and
    m: "main env prog args w =
       after (ev1 @ ev2)
         (seq (install_signal_handlers env w2) (\<lambda>w3.
          seq (load_guest env fd (args ! k) mem w3) (\<lambda>(kend, w4).
          run_guest env kend (tl argv) mft1 msz w4)))"
    by blast
  have pe1: "\<forall>e \<in> set ev1. parse_event e"
    using load_manifest_events [of _ env "args ! k" w] lm by simp
  have pe2: "\<forall>e \<in> set ev2. parse_event e"
    using pass2_events [of _ env prog 0 args "0x20000000" mft w1] p2 by simp
  show ?thesis
  proof (cases "install_signal_handlers env w2")
    case (Stop oc ev3)
    with m have "events (main env prog args w) = ev1 @ ev2 @ ev3" by simp
    moreover have "\<forall>e \<in> set ev3. guest_event e"
      using install_signal_handlers_events [of _ env w2] Stop by simp
    ultimately show ?thesis using e np ng pe1 pe2 by auto
  next
    case sh: (Cont w3 ev3)
    have ge3: "\<forall>e \<in> set ev3. guest_event e"
      using install_signal_handlers_events [of _ env w2] sh by simp
    show ?thesis
    proof (cases "load_guest env fd (args ! k) mem w3")
      case (Stop oc ev4)
      with m sh have "events (main env prog args w) = ev1 @ ev2 @ ev3 @ ev4" by simp
      moreover have "\<forall>e \<in> set ev4. guest_event e"
        using load_guest_events [of _ env fd "args ! k" mem w3] Stop by simp
      ultimately show ?thesis using e np ng pe1 pe2 ge3 by auto
    next
      case lg: (Cont z ev4)
      obtain kend w4 where z: "z = (kend, w4)" by (cases z)
      have "main env prog args w =
          after (ev1 @ ev2 @ ev3 @ ev4) (run_guest env kend (tl argv) mft1 msz w4)"
        using m sh lg z by simp
      then show ?thesis using p1 k lm p2 sh lg z by auto
    qed
  qed
qed

lemma run_guest_cases:
  obtains
    (setup_stop) oc ev where
      "setup_modules env mft w = Stop oc ev"
      "run_guest env kend argv mft msz w = Stop oc ev"
  | (boot_info_dies) mft2 w5 ev5 c where
      "setup_modules env mft w = Cont (mft2, w5) ev5"
      "hvt_boot_info_init env kend argv mft2 msz w5 = Dies c"
      "run_guest env kend argv mft msz w = Stop (Exit c) (ev5 @ [Call_hvt_boot_info_init kend argv])"
  | (not_dropping) mft2 w5 ev5 w6 where
      "\<not> HVT_DROP_PRIVILEGES env"
      "setup_modules env mft w = Cont (mft2, w5) ev5"
      "hvt_boot_info_init env kend argv mft2 msz w5 = Returns () w6"
      "events (run_guest env kend argv mft msz w) =
         ev5 @ [Call_hvt_boot_info_init kend argv, Warn_not_dropping, Call_hvt_vcpu_loop]"
  | (dropping) mft2 w5 ev5 w6 post where
      "HVT_DROP_PRIVILEGES env"
      "setup_modules env mft w = Cont (mft2, w5) ev5"
      "hvt_boot_info_init env kend argv mft2 msz w5 = Returns () w6"
      "events (run_guest env kend argv mft msz w) =
         ev5 @ [Call_hvt_boot_info_init kend argv, Call_hvt_drop_privileges] @ post"
      "post = [] \<or> post = [Call_hvt_vcpu_loop]"
proof (cases "setup_modules env mft w")
  case (Stop oc ev)
  then have "run_guest env kend argv mft msz w = Stop oc ev"
    by (simp add: run_guest_def)
  with Stop show ?thesis by (rule setup_stop)
next
  case sm: (Cont x ev5)
  obtain mft2 w5 where x: "x = (mft2, w5)" by (cases x)
  show ?thesis
  proof (cases "hvt_boot_info_init env kend argv mft2 msz w5")
    case (Dies c)
    have "run_guest env kend argv mft msz w =
        Stop (Exit c) (ev5 @ [Call_hvt_boot_info_init kend argv])"
      using sm x Dies by (simp add: run_guest_def)
    with sm x Dies show ?thesis using boot_info_dies by blast
  next
    case bi: (Returns u w6)
    show ?thesis
    proof (cases "HVT_DROP_PRIVILEGES env")
      case False
      have "events (run_guest env kend argv mft msz w) =
          ev5 @ [Call_hvt_boot_info_init kend argv, Warn_not_dropping, Call_hvt_vcpu_loop]"
        using sm x bi False
        by (cases "hvt_vcpu_loop env w6") (simp_all add: run_guest_def)
      with sm x bi False show ?thesis using not_dropping by auto
    next
      case True
      show ?thesis
      proof (cases "hvt_drop_privileges env w6")
        case (Dies c)
        have "events (run_guest env kend argv mft msz w) =
            ev5 @ [Call_hvt_boot_info_init kend argv, Call_hvt_drop_privileges] @ []"
          using sm x bi True Dies by (simp add: run_guest_def)
        with sm x bi True show ?thesis using dropping by auto
      next
        case (Returns u' w7)
        have "events (run_guest env kend argv mft msz w) =
            ev5 @ [Call_hvt_boot_info_init kend argv, Call_hvt_drop_privileges] @
            [Call_hvt_vcpu_loop]"
          using sm x bi True Returns
          by (cases "hvt_vcpu_loop env w7") (simp_all add: run_guest_def)
        with sm x bi True show ?thesis using dropping by auto
      qed
    qed
  qed
qed

lemma run_guest_boot_info:
  assumes "Call_hvt_boot_info_init g a \<in> set (events (run_guest env kend argv mft msz w))"
  shows "g = kend \<and> a = argv"
proof (cases rule: run_guest_cases [of env mft w kend argv msz])
  case (setup_stop oc ev)
  with assms setup_modules_events [of "Call_hvt_boot_info_init g a" env mft w]
  show ?thesis by simp
next
  case (boot_info_dies mft2 w5 ev5 c)
  with assms setup_modules_events [of "Call_hvt_boot_info_init g a" env mft w]
  show ?thesis by auto
next
  case (not_dropping mft2 w5 ev5 w6)
  with assms setup_modules_events [of "Call_hvt_boot_info_init g a" env mft w]
  show ?thesis by auto
next
  case (dropping mft2 w5 ev5 w6 post)
  with assms setup_modules_events [of "Call_hvt_boot_info_init g a" env mft w]
  show ?thesis by auto
qed

lemma boot_info_arguments:
  assumes "Call_hvt_boot_info_init kend argv \<in> set (events (main env prog args w))"
  shows "\<exists>k fd mft msz w1 ev1 mem mft1 w2 ev2.
           pass1 env prog 0 args = Cont k [] \<and> k < length args \<and>
           load_manifest env (args ! k) w = Cont (fd, mft, msz, w1) ev1 \<and>
           pass2 env prog 0 args 0x20000000 mft w1 = Cont (k, drop k args, mem, mft1, w2) ev2 \<and>
           argv = drop (Suc k) args"
proof -
  from main_late [OF assms]
  obtain k fd mft msz w1 ev1 argv' mem mft1 w2 ev2 w3 ev3 kend' w4 ev4 where
    p1: "pass1 env prog 0 args = Cont k []" and k: "k < length args" and
    lm: "load_manifest env (args ! k) w = Cont (fd, mft, msz, w1) ev1" and
    p2: "pass2 env prog 0 args 0x20000000 mft w1 = Cont (k, argv', mem, mft1, w2) ev2" and
    sh: "install_signal_handlers env w2 = Cont w3 ev3" and
    lg: "load_guest env fd (args ! k) mem w3 = Cont (kend', w4) ev4" and
    m: "main env prog args w =
       after (ev1 @ ev2 @ ev3 @ ev4) (run_guest env kend' (tl argv') mft1 msz w4)"
    by auto
  have n1: "Call_hvt_boot_info_init kend argv \<notin> set ev1"
    using load_manifest_events [of "Call_hvt_boot_info_init kend argv" env "args ! k" w] lm
    by auto
  have n2: "Call_hvt_boot_info_init kend argv \<notin> set ev2"
    using pass2_events [of "Call_hvt_boot_info_init kend argv" env prog 0 args "0x20000000" mft w1]
      p2 by auto
  have n3: "Call_hvt_boot_info_init kend argv \<notin> set ev3"
    using install_signal_handlers_events [of "Call_hvt_boot_info_init kend argv" env w2] sh
    by auto
  have n4: "Call_hvt_boot_info_init kend argv \<notin> set ev4"
    using load_guest_events [of "Call_hvt_boot_info_init kend argv" env fd "args ! k" mem w3] lg
    by auto
  from assms m n1 n2 n3 n4
  have "Call_hvt_boot_info_init kend argv \<in>
      set (events (run_guest env kend' (tl argv') mft1 msz w4))"
    by simp
  from run_guest_boot_info [OF this] have a: "argv = tl argv'" by simp
  from pass2_cursor [OF p2] have c: "argv' = drop k args" by simp
  have "argv = drop (Suc k) args" using a c by (simp add: drop_Suc tl_drop)
  with p1 k lm p2 c show ?thesis by blast
qed

lemma demo_run_net:
  "main demo_env ''solo5-hvt'' [''--net=tap0'', ''test.hvt'', ''a'', ''b''] False =
     Cont 0
       [Call_open ''test.hvt'', Call_elf_load_note 3, Call_mft_validate,
        Call_handle_cmdarg 1 (Some ''--net=tap0''),
        Call_sigaction 2, Call_sigaction 15,
        Call_hvt_mem_size 0x20000000, Call_hvt_init 0x20000000,
        Call_elf_load 3, Call_close 3, Call_hvt_vcpu_init 0x100000,
        Call_setup 0, Call_setup 1,
        Call_hvt_boot_info_init 0x200000 [''a'', ''b''],
        Call_hvt_drop_privileges, Call_hvt_vcpu_loop]"
  by (simp add: demo_simps)

lemma demo_run_unattached:
  "main demo_env ''solo5-hvt'' [''test.hvt''] False =
     Stop (Exit 1)
       [Call_open ''test.hvt'', Call_elf_load_note 3, Call_mft_validate,
        Call_sigaction 2, Call_sigaction 15,
        Call_hvt_mem_size 0x20000000, Call_hvt_init 0x20000000,
        Call_elf_load 3, Call_close 3, Call_hvt_vcpu_init 0x100000,
        Call_setup 0, Call_setup 1,
        Warn_not_attached ''net0'' ''NET_BASIC'', Err_must_attach]"
  by (simp add: demo_simps)

lemma demo_run_mem_net:
  "main demo_env ''solo5-hvt'' [''--mem=512'', ''--net=tap0'', ''test.hvt'', ''a'', ''b''] False =
     Cont 0
       [Call_open ''test.hvt'', Call_elf_load_note 3, Call_mft_validate,
        Call_handle_cmdarg 1 (Some ''--net=tap0''),
        Call_sigaction 2, Call_sigaction 15,
        Call_hvt_mem_size (512 * 2 ^ 20), Call_hvt_init (512 * 2 ^ 20),
        Call_elf_load 3, Call_close 3, Call_hvt_vcpu_init 0x100000,
        Call_setup 0, Call_setup 1,
        Call_hvt_boot_info_init 0x200000 [''a'', ''b''],
        Call_hvt_drop_privileges, Call_hvt_vcpu_loop]"
  by (simp add: demo_simps)




text \<open>
  C9, as amended. In a run in which the image descriptor is closed or the setup of some
  module is called, the descriptor \<open>fd\<close> returned by \<^verbatim>\<open>open\<close> is closed directly after
  the call of \<^verbatim>\<open>elf_load\<close>, and before that neither a descriptor is closed nor a setup
  called. (The modules' \<^verbatim>\<open>handle_cmdarg\<close> does run earlier, in the second scan, while the
  descriptor is open.)
\<close>

theorem image_closed_before_setup:
  assumes "Call_close fd0 \<in> set (events (main env prog args w)) \<or>
           Call_setup i \<in> set (events (main env prog args w))"
  shows "\<exists>k fd a b.
           pass1 env prog 0 args = Cont k [] \<and> k < length args \<and>
           fst (open_rdonly env (args ! k) w) = fd \<and>
           events (main env prog args w) = a @ [Call_elf_load fd, Call_close fd] @ b \<and>
           (\<forall>j. Call_setup j \<notin> set a) \<and> (\<forall>x. Call_close x \<notin> set a)"
proof -
  from assms obtain e where e: "e \<in> set (events (main env prog args w))"
    and e_cases: "e = Call_close fd0 \<or> e = Call_setup i"
    by blast
  have np: "\<not> parse_event e" using e_cases by auto
  from main_parsed [OF e np]
  obtain k fd mft msz w1 ev1 argv mem mft1 w2 ev2 where
    p1: "pass1 env prog 0 args = Cont k []" and k: "k < length args" and
    lm: "load_manifest env (args ! k) w = Cont (fd, mft, msz, w1) ev1" and
    p2: "pass2 env prog 0 args 0x20000000 mft w1 = Cont (k, argv, mem, mft1, w2) ev2" and
    m: "main env prog args w =
       after (ev1 @ ev2)
         (seq (install_signal_handlers env w2) (\<lambda>w3.
          seq (load_guest env fd (args ! k) mem w3) (\<lambda>(kend, w4).
          run_guest env kend (tl argv) mft1 msz w4)))"
    by blast
  have fd: "fst (open_rdonly env (args ! k) w) = fd"
    using load_manifest_Cont [OF lm] by simp
  have pe1: "\<forall>x \<in> set ev1. parse_event x"
    using load_manifest_events [of _ env "args ! k" w] lm by simp
  have pe2: "\<forall>x \<in> set ev2. parse_event x"
    using pass2_events [of _ env prog 0 args "0x20000000" mft w1] p2 by simp
  have sc3: "\<forall>x \<in> set (events (install_signal_handlers env w2)).
      (\<exists>n. x = Call_sigaction n) \<or> x = Err_signal_handler"
    using install_signal_handlers_class [of _ env w2] by blast
  have shape: "\<exists>w3 ev3 mem' ep b.
      install_signal_handlers env w2 = Cont w3 ev3 \<and>
      events (main env prog args w) =
        (ev1 @ ev2 @ ev3 @ [Call_hvt_mem_size mem, Call_hvt_init mem']) @
        [Call_elf_load fd, Call_close fd] @ Call_hvt_vcpu_init ep # b"
  proof (cases "install_signal_handlers env w2")
    case (Stop oc ev3)
    with m have "events (main env prog args w) = ev1 @ ev2 @ ev3" by simp
    with e e_cases pe1 pe2 sc3 Stop show ?thesis by auto
  next
    case sh: (Cont w3 ev3)
    show ?thesis
    proof (cases "load_guest env fd (args ! k) mem w3")
      case (Stop oc ev4)
      with m sh have ev: "events (main env prog args w) = ev1 @ ev2 @ ev3 @ ev4" by simp
      have "e \<in> set ev4" using e ev e_cases pe1 pe2 sc3 sh by auto
      moreover have "\<not> guest_event (Call_setup i)" by simp
      ultimately have "Call_close fd0 \<in> set (events (load_guest env fd (args ! k) mem w3))"
        using e_cases load_guest_events [of e env fd "args ! k" mem w3] Stop by auto
      from load_guest_close [OF this] Stop obtain mem' ep where
        "ev4 = [Call_hvt_mem_size mem, Call_hvt_init mem', Call_elf_load fd, Call_close fd,
                Call_hvt_vcpu_init ep]" by auto
      with ev sh show ?thesis by auto
    next
      case lg: (Cont z ev4)
      obtain kend w4 where z: "z = (kend, w4)" by (cases z)
      from load_guest_Cont [of env fd "args ! k" mem w3 kend w4 ev4] lg z obtain mem' ep where
        "ev4 = [Call_hvt_mem_size mem, Call_hvt_init mem', Call_elf_load fd, Call_close fd,
                Call_hvt_vcpu_init ep]" by auto
      moreover have "events (main env prog args w) =
          ev1 @ ev2 @ ev3 @ ev4 @ events (run_guest env kend (tl argv) mft1 msz w4)"
        using m sh lg z by simp
      ultimately show ?thesis using sh by auto
    qed
  qed
  then obtain w3 ev3 mem' ep b where
    sh: "install_signal_handlers env w2 = Cont w3 ev3" and
    ev: "events (main env prog args w) =
        (ev1 @ ev2 @ ev3 @ [Call_hvt_mem_size mem, Call_hvt_init mem']) @
        [Call_elf_load fd, Call_close fd] @ Call_hvt_vcpu_init ep # b"
    by blast
  let ?a = "ev1 @ ev2 @ ev3 @ [Call_hvt_mem_size mem, Call_hvt_init mem']"
  have sc3': "\<forall>x \<in> set ev3. (\<exists>n. x = Call_sigaction n) \<or> x = Err_signal_handler"
    using sc3 sh by simp
  have a1: "\<forall>j. Call_setup j \<notin> set ?a" using pe1 pe2 sc3' by auto
  have a2: "\<forall>x. Call_close x \<notin> set ?a" using pe1 pe2 sc3' by auto
  show ?thesis
    apply (intro exI conjI)
         apply (rule p1)
        apply (rule k)
       apply (rule fd)
      apply (rule ev)
     apply (rule a1)
    apply (rule a2)
    done
qed

lemma demo_run_net2:
  "main demo_env ''solo5-hvt'' [''--net=tap0'', ''test.hvt''] False =
     Cont 0
       [Call_open ''test.hvt'', Call_elf_load_note 3, Call_mft_validate,
        Call_handle_cmdarg 1 (Some ''--net=tap0''),
        Call_sigaction 2, Call_sigaction 15,
        Call_hvt_mem_size 0x20000000, Call_hvt_init 0x20000000,
        Call_elf_load 3, Call_close 3, Call_hvt_vcpu_init 0x100000,
        Call_setup 0, Call_setup 1,
        Call_hvt_boot_info_init 0x200000 [],
        Call_hvt_drop_privileges, Call_hvt_vcpu_loop]"
  by (simp add: demo_simps)

text \<open>The amended C9 on a run of the concrete tender.\<close>

theorem image_closed_before_setup_witness:
  "Call_setup 0 \<in> set (events (main demo_env ''solo5-hvt'' [''--net=tap0'', ''test.hvt''] False)) \<and>
   (\<exists>k fd a b.
      pass1 demo_env ''solo5-hvt'' 0 [''--net=tap0'', ''test.hvt''] = Cont k [] \<and>
      k < length [''--net=tap0'', ''test.hvt''] \<and>
      fst (open_rdonly demo_env ([''--net=tap0'', ''test.hvt''] ! k) False) = fd \<and>
      events (main demo_env ''solo5-hvt'' [''--net=tap0'', ''test.hvt''] False) =
        a @ [Call_elf_load fd, Call_close fd] @ b \<and>
      (\<forall>j. Call_setup j \<notin> set a) \<and> (\<forall>x. Call_close x \<notin> set a))"
proof -
  have h: "Call_setup 0 \<in>
      set (events (main demo_env ''solo5-hvt'' [''--net=tap0'', ''test.hvt''] False))"
    by (simp add: demo_run_net2)
  from h image_closed_before_setup [OF disjI2 [OF h]] show ?thesis by (intro conjI)
qed

text \<open>
  C9 as stated fails: in this run the module \<open>net\<close> (position 1) handles
  \<^verbatim>\<open>--net=tap0\<close> before \<^verbatim>\<open>elf_load\<close> and \<^verbatim>\<open>close\<close>.
\<close>

theorem handler_runs_before_close:
  "main demo_env ''solo5-hvt'' [''--net=tap0'', ''test.hvt''] False =
     Cont 0
       ([Call_open ''test.hvt'', Call_elf_load_note 3, Call_mft_validate] @
        [Call_handle_cmdarg 1 (Some ''--net=tap0'')] @
        [Call_sigaction 2, Call_sigaction 15,
         Call_hvt_mem_size 0x20000000, Call_hvt_init 0x20000000, Call_elf_load 3] @
        [Call_close 3] @
        [Call_hvt_vcpu_init 0x100000, Call_setup 0, Call_setup 1,
         Call_hvt_boot_info_init 0x200000 [],
         Call_hvt_drop_privileges, Call_hvt_vcpu_loop])"
  by (simp add: demo_run_net2)



end
